theory Spec2Isabelle
  imports Complex_Main "HOL-Library.Word" "HOL-Library.AList"
begin

section \<open>Python strings\<close>

text \<open>
  A Python \<^verbatim>\<open>str\<close> is a sequence of Unicode code points, and \<^verbatim>\<open>len\<close> counts code
  points, so a string is a list of code points here. A string may hold a lone surrogate (a code
  point from \<open>0xD800\<close> to \<open>0xDFFF\<close>), which \<^verbatim>\<open>str.encode\<close> refuses.
\<close>

type_synonym pystr = "nat list"

definition of_ascii :: "string \<Rightarrow> pystr" where
  "of_ascii s = map of_char s"

text \<open>The code points for which \<^verbatim>\<open>str.isspace\<close> holds.\<close>

definition isspace :: "nat \<Rightarrow> bool" where
  "isspace c \<longleftrightarrow> c \<in> set [0x09, 0x0A, 0x0B, 0x0C, 0x0D, 0x1C, 0x1D, 0x1E, 0x1F, 0x20, 0x85, 0xA0,
     0x1680, 0x2000, 0x2001, 0x2002, 0x2003, 0x2004, 0x2005, 0x2006, 0x2007, 0x2008, 0x2009,
     0x200A, 0x2028, 0x2029, 0x202F, 0x205F, 0x3000]"

text \<open>
  \<^verbatim>\<open>s.split()\<close>: the maximal runs of non-whitespace characters, in order. The first argument
  of \<open>split_from\<close> is the word being read.
\<close>

fun split_from :: "pystr \<Rightarrow> pystr \<Rightarrow> pystr list" where
  "split_from cur [] = (if cur = [] then [] else [cur])"
| "split_from cur (c # cs) =
     (if isspace c then (if cur = [] then split_from [] cs else cur # split_from [] cs)
      else split_from (cur @ [c]) cs)"

definition str_split :: "pystr \<Rightarrow> pystr list" where
  "str_split s = split_from [] s"

text \<open>\<^verbatim>\<open>s.split(sep)\<close> for a separator of one character: empty pieces are kept.\<close>

fun split_on_from :: "nat \<Rightarrow> pystr \<Rightarrow> pystr \<Rightarrow> pystr list" where
  "split_on_from sep cur [] = [cur]"
| "split_on_from sep cur (c # cs) =
     (if c = sep then cur # split_on_from sep [] cs else split_on_from sep (cur @ [c]) cs)"

definition str_split_on :: "pystr \<Rightarrow> nat \<Rightarrow> pystr list" where
  "str_split_on s sep = split_on_from sep [] s"

text \<open>\<^verbatim>\<open>s.split(sep)[0]\<close>: the part of \<open>s\<close> before the first separator (all of it without one).\<close>

fun first_field :: "nat \<Rightarrow> pystr \<Rightarrow> pystr" where
  "first_field sep [] = []"
| "first_field sep (c # cs) = (if c = sep then [] else c # first_field sep cs)"

definition str_strip :: "pystr \<Rightarrow> pystr" where
  "str_strip s = rev (dropWhile isspace (rev (dropWhile isspace s)))"

fun str_join :: "pystr \<Rightarrow> pystr list \<Rightarrow> pystr" where
  "str_join sep [] = []"
| "str_join sep [x] = x"
| "str_join sep (x # y # ys) = x @ sep @ str_join sep (y # ys)"

definition str_replace :: "pystr \<Rightarrow> nat \<Rightarrow> nat \<Rightarrow> pystr" where
  "str_replace s old new = map (\<lambda>c. if c = old then new else c) s"

definition startswith :: "pystr \<Rightarrow> pystr \<Rightarrow> bool" where
  "startswith s p \<longleftrightarrow> take (length p) s = p"

text \<open>\<^verbatim>\<open>p in s\<close> for strings.\<close>

fun str_contains :: "pystr \<Rightarrow> pystr \<Rightarrow> bool" where
  "str_contains p [] \<longleftrightarrow> p = []"
| "str_contains p (c # cs) \<longleftrightarrow> take (length p) (c # cs) = p \<or> str_contains p cs"

text \<open>\<^verbatim>\<open>s.find(c)\<close> and \<^verbatim>\<open>s.rfind(c)\<close> for one character: \<open>-1\<close> when it does not occur.\<close>

fun index_of :: "nat \<Rightarrow> pystr \<Rightarrow> nat option" where
  "index_of c [] = None"
| "index_of c (x # xs) = (if x = c then Some 0 else map_option Suc (index_of c xs))"

definition str_find :: "pystr \<Rightarrow> nat \<Rightarrow> int" where
  "str_find s c = (case index_of c s of None \<Rightarrow> - 1 | Some k \<Rightarrow> int k)"

definition str_rfind :: "pystr \<Rightarrow> nat \<Rightarrow> int" where
  "str_rfind s c = (case index_of c (rev s) of None \<Rightarrow> - 1 | Some k \<Rightarrow> int (length s) - 1 - int k)"

text \<open>
  A slice \<^verbatim>\<open>xs[a:b]\<close> with integer bounds: a negative bound counts from the end, and both
  bounds are clamped to the list.
\<close>

definition clamp_index :: "nat \<Rightarrow> int \<Rightarrow> nat" where
  "clamp_index n a = (if a < 0 then nat (max (a + int n) 0) else min (nat a) n)"

definition py_slice :: "'a list \<Rightarrow> int \<Rightarrow> int \<Rightarrow> 'a list" where
  "py_slice xs a b =
     (let lo = clamp_index (length xs) a; hi = clamp_index (length xs) b
      in take (hi - lo) (drop lo xs))"

text \<open>The decimal digits of a number, as \<^verbatim>\<open>str\<close> and f-strings print an integer.\<close>

fun digits_of :: "nat \<Rightarrow> pystr" where
  "digits_of n = (if n < 10 then [48 + n] else digits_of (n div 10) @ [48 + n mod 10])"

definition str_of_int :: "int \<Rightarrow> pystr" where
  "str_of_int i = (if i < 0 then 45 # digits_of (nat (- i)) else digits_of (nat i))"

text \<open>
  \<^verbatim>\<open>c.isalpha()\<close> and \<^verbatim>\<open>s.upper()\<close>: written out on ASCII; beyond ASCII they follow the Unicode
  character database, which is a parameter (\<open>alpha_tbl\<close>, the alphabetic code points, and
  \<open>upper_tbl\<close>, the full upper-case mapping of one code point). \<^verbatim>\<open>str.upper\<close> maps character by
  character.
\<close>

definition isalpha :: "(nat \<Rightarrow> bool) \<Rightarrow> nat \<Rightarrow> bool" where
  "isalpha alpha_tbl c \<longleftrightarrow>
     (if c < 128 then (65 \<le> c \<and> c \<le> 90) \<or> (97 \<le> c \<and> c \<le> 122) else alpha_tbl c)"

definition upper_char :: "(nat \<Rightarrow> pystr) \<Rightarrow> nat \<Rightarrow> pystr" where
  "upper_char upper_tbl c =
     (if c < 128 then [if 97 \<le> c \<and> c \<le> 122 then c - 32 else c] else upper_tbl c)"

definition str_upper :: "(nat \<Rightarrow> pystr) \<Rightarrow> pystr \<Rightarrow> pystr" where
  "str_upper upper_tbl s = concat (map (upper_char upper_tbl) s)"

section \<open>Exceptions, external services and their trace\<close>

text \<open>
  The exceptions the modelled code can meet. All of them are subclasses of \<^verbatim>\<open>Exception\<close>, so
  an \<^verbatim>\<open>except Exception\<close> clause catches each. \<open>ClientError\<close> is whatever an external client
  (the graph driver, the vector index, the model client) raises, with its message.
\<close>

datatype py_error =
    ClientError pystr
  | KeyError
  | TypeError
  | ValueError
  | AttributeError
  | ZeroDivisionError
  | JSONDecodeError
  | UnicodeEncodeError

datatype log_level = DEBUG | INFO | SUCCESS | WARNING | ERROR

datatype neo4j_value = NString pystr | NInt int

text \<open>
  The queries sent to the graph store, by template. \<open>MergeNode label name description\<close> is
  the node upsert of \<^verbatim>\<open>store_in_neo4j\<close> with \<open>label\<close> spliced into the query text and the two
  others passed as parameters; \<open>MergeEdge rel_type from_id to_id\<close> is the edge upsert with
  \<open>rel_type\<close> spliced into the query text.
\<close>

datatype cypher =
    MergeNode pystr pystr pystr
  | MergeEdge pystr neo4j_value neo4j_value
  | CountNodes
  | CountRelationships

datatype log_arg = ArgStr pystr | ArgInt int | ArgErr py_error

text \<open>
  What a call does to the outside: the calls to the external services with their arguments,
  and the log lines with their level, template and interpolated values.
\<close>

datatype event =
    EmbeddingsCall pystr pystr
  | ChatCall pystr pystr
  | Neo4jSession
  | Neo4jRun cypher
  | PineconeQuery "real list" int
  | PineconeStats
  | Log log_level string "log_arg list"

text \<open>
  A match returned by the vector index, by the metadata keys that \<^verbatim>\<open>answer_question\<close> reads;
  \<open>None\<close> is a missing key. Page numbers are whole numbers.
\<close>

record vector_match =
  md_text :: "pystr option"
  md_original_filename :: "pystr option"
  md_doc_id :: "pystr option"
  md_page_num :: "int option"

text \<open>
  The external services. Each takes the state of the outside world \<open>'w\<close> and returns its
  outcome with the new state; \<open>Inl e\<close> is the call raising \<open>e\<close>.
  \<^item> \<open>ollama_embeddings model prompt\<close>: \<^verbatim>\<open>ollama_client.embeddings(...)['embedding']\<close>;
  \<^item> \<open>ollama_chat model prompt\<close>: \<^verbatim>\<open>ollama_client.chat(...)['message']['content']\<close>;
  \<^item> \<open>neo4j_session\<close>: opening \<^verbatim>\<open>neo4j_driver.session()\<close>;
  \<^item> \<open>neo4j_run query\<close>: \<^verbatim>\<open>session.run(query, ...)\<close> and, where the code reads it,
    \<^verbatim>\<open>result.single()\<close>: the value of the single returned column, \<open>None\<close> without a record;
  \<^item> \<open>pinecone_query vector top_k\<close>: \<^verbatim>\<open>pinecone_index.query(...).matches\<close>;
  \<^item> \<open>pinecone_describe_index_stats\<close>: \<^verbatim>\<open>pinecone_index.describe_index_stats().total_vector_count\<close>.
\<close>

record 'w services =
  ollama_embeddings :: "pystr \<Rightarrow> pystr \<Rightarrow> 'w \<Rightarrow> (py_error + real list) \<times> 'w"
  ollama_chat :: "pystr \<Rightarrow> pystr \<Rightarrow> 'w \<Rightarrow> (py_error + pystr) \<times> 'w"
  neo4j_session :: "'w \<Rightarrow> (py_error + unit) \<times> 'w"
  neo4j_run :: "cypher \<Rightarrow> 'w \<Rightarrow> (py_error + neo4j_value option) \<times> 'w"
  pinecone_query :: "real list \<Rightarrow> int \<Rightarrow> 'w \<Rightarrow> (py_error + vector_match list) \<times> 'w"
  pinecone_describe_index_stats :: "'w \<Rightarrow> (py_error + int) \<times> 'w"

text \<open>The state threaded through a call: the outside world and the trace so far.\<close>

record 'w state =
  world :: 'w
  trace :: "event list"

definition call :: "event \<Rightarrow> ('w \<Rightarrow> 'a \<times> 'w) \<Rightarrow> 'w state \<Rightarrow> 'a \<times> 'w state" where
  "call ev f s = (case f (world s) of (r, w') \<Rightarrow> (r, \<lparr>world = w', trace = trace s @ [ev]\<rparr>))"

definition log :: "log_level \<Rightarrow> string \<Rightarrow> log_arg list \<Rightarrow> 'w state \<Rightarrow> 'w state" where
  "log lvl template args s = s\<lparr>trace := trace s @ [Log lvl template args]\<rparr>"

section \<open>Document ingestor: \<^verbatim>\<open>chunk_text_with_pages\<close>\<close>

text \<open>A page and a chunk are both a dictionary with the keys \<^verbatim>\<open>text\<close> and \<^verbatim>\<open>page_num\<close>.\<close>

record paged_text =
  page_text :: pystr
  page_num :: int

text \<open>
  The \<^verbatim>\<open>while i < len(words)\<close> loop of one page (source lines 63 to 71). Nothing bounds the
  number of iterations, so the loop is a partial function: \<open>None\<close> is a loop that never ends.
\<close>

partial_function (option) chunk_loop ::
  "pystr list \<Rightarrow> int \<Rightarrow> int \<Rightarrow> int \<Rightarrow> int \<Rightarrow> paged_text list \<Rightarrow> paged_text list option" where
  "chunk_loop words pn chunk_size overlap i chunks =
     (if i < int (length words) then
        (let chunk_text = str_join (of_ascii '' '') (py_slice words i (i + chunk_size))
         in chunk_loop words pn chunk_size overlap (i + (chunk_size - overlap))
              (if length (str_strip chunk_text) > 50
               then chunks @ [\<lparr>page_text = chunk_text, page_num = pn\<rparr>] else chunks))
      else Some chunks)"

text \<open>
  The loop over the pages (source line 58), with the chunks collected so far. The function
  calls no service; its closing log line is left out.
\<close>

fun chunk_pages ::
  "paged_text list \<Rightarrow> int \<Rightarrow> int \<Rightarrow> paged_text list \<Rightarrow> paged_text list option" where
  "chunk_pages [] chunk_size overlap chunks = Some chunks"
| "chunk_pages (page_data # rest) chunk_size overlap chunks =
     (case chunk_loop (str_split (page_text page_data)) (page_num page_data)
             chunk_size overlap 0 chunks of
        None \<Rightarrow> None
      | Some chunks' \<Rightarrow> chunk_pages rest chunk_size overlap chunks')"

definition chunk_text_with_pages :: "paged_text list \<Rightarrow> int \<Rightarrow> int \<Rightarrow> paged_text list option" where
  "chunk_text_with_pages pages_data chunk_size overlap =
     chunk_pages pages_data chunk_size overlap []"

text \<open>
  What one window contributes (the body of the loop at window start \<open>i\<close>), and the number of
  windows of a page of \<open>n\<close> words when the start advances by \<open>step\<close>.
\<close>

definition window_chunk :: "pystr list \<Rightarrow> int \<Rightarrow> int \<Rightarrow> int \<Rightarrow> paged_text list" where
  "window_chunk words pn chunk_size i =
     (let chunk_text = str_join (of_ascii '' '') (py_slice words i (i + chunk_size))
      in if length (str_strip chunk_text) > 50
         then [\<lparr>page_text = chunk_text, page_num = pn\<rparr>] else [])"

definition window_count :: "nat \<Rightarrow> int \<Rightarrow> nat" where
  "window_count n step = nat ((int n + step - 1) div step)"

text \<open>The chunks of one page: its windows at the starts \<open>0\<close>, \<open>step\<close>, \<open>2 * step\<close>, and so on.\<close>

definition page_chunks :: "pystr list \<Rightarrow> int \<Rightarrow> int \<Rightarrow> int \<Rightarrow> paged_text list" where
  "page_chunks words pn chunk_size overlap =
     concat (map (\<lambda>k. window_chunk words pn chunk_size (int k * (chunk_size - overlap)))
               [0..<window_count (length words) (chunk_size - overlap)])"

section \<open>Embedding generator: \<^verbatim>\<open>generate_embedding\<close>\<close>

text \<open>
  \<^verbatim>\<open>text.encode()\<close>: the UTF-8 bytes of the text. A lone surrogate has no encoding and raises
  \<^verbatim>\<open>UnicodeEncodeError\<close>. (A code point is below \<open>0x110000\<close>; the last branch is for those from
  \<open>0x10000\<close> on.)
\<close>

definition utf8_char :: "nat \<Rightarrow> py_error + nat list" where
  "utf8_char c =
     (if c < 0x80 then Inr [c]
      else if c < 0x800 then Inr [0xC0 + c div 64, 0x80 + c mod 64]
      else if 0xD800 \<le> c \<and> c \<le> 0xDFFF then Inl UnicodeEncodeError
      else if c < 0x10000
        then Inr [0xE0 + c div 4096, 0x80 + (c div 64) mod 64, 0x80 + c mod 64]
      else Inr [0xF0 + c div 262144, 0x80 + (c div 4096) mod 64, 0x80 + (c div 64) mod 64,
                0x80 + c mod 64])"

fun str_encode :: "pystr \<Rightarrow> py_error + nat list" where
  "str_encode [] = Inr []"
| "str_encode (c # cs) =
     (case utf8_char c of
        Inl e \<Rightarrow> Inl e
      | Inr encoded \<Rightarrow>
          (case str_encode cs of Inl e \<Rightarrow> Inl e | Inr rest \<Rightarrow> Inr (encoded @ rest)))"

text \<open>
  \<^verbatim>\<open>hashlib.sha256(...).hexdigest()\<close>: the hash function itself is a parameter \<open>sha256\<close> from the
  bytes to their 256-bit digest; \<open>hexdigest\<close> prints the digest as 64 lower-case hexadecimal
  digits, most significant first.
\<close>

definition hex_char :: "nat \<Rightarrow> nat" where
  "hex_char v = (if v < 10 then 48 + v else 87 + v)"

definition digest_digit :: "256 word \<Rightarrow> nat \<Rightarrow> nat" where
  "digest_digit d k = (unat d div 16 ^ (63 - k)) mod 16"

definition hexdigest :: "256 word \<Rightarrow> pystr" where
  "hexdigest d = map (\<lambda>k. hex_char (digest_digit d k)) [0..<64]"

text \<open>
  \<^verbatim>\<open>int(s, 16)\<close> on a string of hexadecimal digits; the empty string and any other character
  raise \<^verbatim>\<open>ValueError\<close>. (Signs, blanks, underscores and a \<^verbatim>\<open>0x\<close> prefix, which Python accepts
  as well, do not occur in a slice of a hex digest and are not modelled.)
\<close>

definition hex_value :: "nat \<Rightarrow> nat option" where
  "hex_value c =
     (if 48 \<le> c \<and> c \<le> 57 then Some (c - 48)
      else if 97 \<le> c \<and> c \<le> 102 then Some (c - 87)
      else if 65 \<le> c \<and> c \<le> 70 then Some (c - 55)
      else None)"

fun hex_digits :: "int \<Rightarrow> pystr \<Rightarrow> py_error + int" where
  "hex_digits acc [] = Inr acc"
| "hex_digits acc (c # cs) =
     (case hex_value c of None \<Rightarrow> Inl ValueError | Some v \<Rightarrow> hex_digits (16 * acc + int v) cs)"

definition int16 :: "pystr \<Rightarrow> py_error + int" where
  "int16 s = (if s = [] then Inl ValueError else hex_digits 0 s)"

text \<open>
  The loop \<^verbatim>\<open>for i in range(1024)\<close> of the fallback (source lines 204 to 207), over the indices
  still to do, with the embedding built so far. Components are floats in the code and exact
  reals here.
\<close>

fun fallback_loop :: "pystr \<Rightarrow> nat list \<Rightarrow> real list \<Rightarrow> py_error + real list" where
  "fallback_loop text_hash [] embedding = Inr embedding"
| "fallback_loop text_hash (i # rest) embedding =
     (if length text_hash = 0 then Inl ZeroDivisionError
      else
        (case int16 (py_slice text_hash (int (i mod length text_hash))
                       (int (i mod length text_hash) + 2)) of
           Inl e \<Rightarrow> Inl e
         | Inr byte_val \<Rightarrow>
             (let normalized = (real_of_int byte_val / 255 * 2) - 1
              in fallback_loop text_hash rest (embedding @ [normalized + 0.01]))))"

text \<open>
  The \<^verbatim>\<open>except\<close> block from source line 202 on: encoding the text comes first, and what it
  raises ends the block.
\<close>

definition fallback_embedding :: "(nat list \<Rightarrow> 256 word) \<Rightarrow> pystr \<Rightarrow> py_error + real list" where
  "fallback_embedding sha256 text =
     (case str_encode text of
        Inl e \<Rightarrow> Inl e
      | Inr encoded \<Rightarrow> fallback_loop (hexdigest (sha256 encoded)) [0..<1024] [])"

text \<open>
  \<^verbatim>\<open>generate_embedding\<close> (source lines 176 to 209): the \<^verbatim>\<open>try\<close> block pads or truncates the
  model's vector; the \<^verbatim>\<open>except\<close> block computes the fallback, and what it raises is raised
  to the caller.
\<close>

definition generate_embedding ::
  "'w services \<Rightarrow> (nat list \<Rightarrow> 256 word) \<Rightarrow> pystr \<Rightarrow> 'w state \<Rightarrow> (py_error + real list) \<times> 'w state" where
  "generate_embedding svc sha256 text s =
     (case call (EmbeddingsCall (of_ascii ''nomic-embed-text'') text)
             (ollama_embeddings svc (of_ascii ''nomic-embed-text'') text) s of
        (Inr embedding, s1) \<Rightarrow>
          (let embedding' =
                 (if length embedding < 1024
                  then embedding @ replicate (1024 - length embedding) 0
                  else if length embedding > 1024 then py_slice embedding 0 1024
                  else embedding)
           in (Inr embedding',
               log DEBUG ''Generated semantic embedding (dim={})''
                 [ArgInt (int (length embedding'))] s1))
      | (Inl e, s1) \<Rightarrow>
          (let s2 = log ERROR ''Embedding generation failed: {}'' [ArgErr e] s1
           in case fallback_embedding sha256 text of
                Inl e' \<Rightarrow> (Inl e', s2)
              | Inr embedding \<Rightarrow>
                  (Inr embedding, log WARNING ''Using fallback hash-based embedding'' [] s2)))"

text \<open>
  The normalisation of source lines 206 and 207 as a function of the number read, and the
  number the loop reads at index \<open>i\<close> of a digest \<open>d\<close> (see \<open>fallback_loop_hexdigest\<close> below): the
  slice at \<open>i mod 64\<close> holds two hexadecimal digits, except at the last position of the digest,
  where it holds one.
\<close>

definition component_of :: "int \<Rightarrow> real" where
  "component_of byte_val = (real_of_int byte_val / 255 * 2) - 1 + 0.01"

definition code_byte :: "256 word \<Rightarrow> nat \<Rightarrow> int" where
  "code_byte d i =
     (if i mod 64 < 63
      then int (16 * digest_digit d (i mod 64) + digest_digit d (i mod 64 + 1))
      else int (digest_digit d 63))"

text \<open>
  The number the specification describes: the byte written by the two hexadecimal digits at
  positions \<open>i mod 64\<close> and \<open>(i + 1) mod 64\<close> of the digest, wrapping around its end.
\<close>

definition spec_byte :: "256 word \<Rightarrow> nat \<Rightarrow> int" where
  "spec_byte d i = int (16 * digest_digit d (i mod 64) + digest_digit d ((i + 1) mod 64))"

section \<open>Entity extractor: \<^verbatim>\<open>extract_entities_with_llm\<close>\<close>

datatype json =
    JNull
  | JBool bool
  | JInt int
  | JFloat real
  | JString pystr
  | JArray "json list"
  | JObject "(pystr \<times> json) list"

text \<open>\<^verbatim>\<open>result.get(key, default)\<close> and \<^verbatim>\<open>len(v)\<close> on a value parsed from JSON.\<close>

definition json_get :: "json \<Rightarrow> pystr \<Rightarrow> json \<Rightarrow> py_error + json" where
  "json_get v key dflt =
     (case v of
        JObject kvs \<Rightarrow> Inr (case map_of kvs key of None \<Rightarrow> dflt | Some x \<Rightarrow> x)
      | _ \<Rightarrow> Inl AttributeError)"

definition json_len :: "json \<Rightarrow> py_error + nat" where
  "json_len v =
     (case v of
        JString s \<Rightarrow> Inr (length s)
      | JArray xs \<Rightarrow> Inr (length xs)
      | JObject kvs \<Rightarrow> Inr (length kvs)
      | _ \<Rightarrow> Inl TypeError)"

definition EMPTY_EXTRACTION :: json where
  "EMPTY_EXTRACTION =
     JObject [(of_ascii ''entities'', JArray []), (of_ascii ''relationships'', JArray [])]"

text \<open>The extraction prompt of \<^verbatim>\<open>extract_entities_with_llm\<close> up to the text (source lines 78 to 84).\<close>

definition EXTRACTION_PROMPT_HEAD :: pystr where
  "EXTRACTION_PROMPT_HEAD =
     [69, 120, 116, 114, 97, 99, 116, 32, 97, 103, 114, 105, 99, 117, 108, 116, 117, 114,
      97, 108, 32, 101, 110, 116, 105, 116, 105, 101, 115, 32, 102, 114, 111, 109, 32, 116,
      104, 105, 115, 32, 65, 122, 101, 114, 98, 97, 105, 106, 97, 110, 105, 32, 116, 101,
      120, 116, 46, 32, 82, 101, 116, 117, 114, 110, 32, 79, 78, 76, 89, 32, 97, 32, 74, 83,
      79, 78, 32, 111, 98, 106, 101, 99, 116, 58, 10, 123, 10, 32, 32, 34, 101, 110, 116,
      105, 116, 105, 101, 115, 34, 58, 32, 91, 123, 34, 110, 97, 109, 101, 34, 58, 32, 34,
      101, 110, 116, 105, 116, 121, 95, 110, 97, 109, 101, 34, 44, 32, 34, 116, 121, 112,
      101, 34, 58, 32, 34, 67, 114, 111, 112, 124, 68, 105, 115, 101, 97, 115, 101, 124, 84,
      101, 99, 104, 110, 105, 113, 117, 101, 124, 67, 104, 101, 109, 105, 99, 97, 108, 34,
      44, 32, 34, 100, 101, 115, 99, 114, 105, 112, 116, 105, 111, 110, 34, 58, 32, 34, 98,
      114, 105, 101, 102, 34, 125, 93, 44, 10, 32, 32, 34, 114, 101, 108, 97, 116, 105, 111,
      110, 115, 104, 105, 112, 115, 34, 58, 32, 91, 123, 34, 102, 114, 111, 109, 34, 58, 32,
      34, 101, 110, 116, 105, 116, 121, 49, 34, 44, 32, 34, 116, 111, 34, 58, 32, 34, 101,
      110, 116, 105, 116, 121, 50, 34, 44, 32, 34, 116, 121, 112, 101, 34, 58, 32, 34, 84,
      82, 69, 65, 84, 83, 124, 65, 70, 70, 69, 67, 84, 83, 124, 80, 82, 69, 86, 69, 78, 84,
      83, 34, 125, 93, 10, 125, 10, 10, 84, 101, 120, 116, 58, 32]"

text \<open>The extraction prompt after the text (source lines 85 and 86).\<close>

definition EXTRACTION_PROMPT_TAIL :: pystr where
  "EXTRACTION_PROMPT_TAIL =
     [10, 10, 82, 101, 116, 117, 114, 110, 32, 79, 78, 76, 89, 32, 118, 97, 108, 105, 100,
      32, 74, 83, 79, 78, 58]"

text \<open>The answer prompt of \<^verbatim>\<open>answer_question\<close> up to the context (source lines 265 to 267).\<close>

definition ANSWER_PROMPT_HEAD :: pystr where
  "ANSWER_PROMPT_HEAD =
     [83, 8230, 244, 110, 32, 107, 8230, 244, 110, 100, 32, 116, 8230, 244, 115, 8230, 244,
      114, 114, 8730, 186, 102, 97, 116, 402, 177, 32, 8730, 186, 122, 114, 8230, 244, 32,
      101, 107, 115, 112, 101, 114, 116, 115, 8230, 244, 110, 46, 32, 65, 8776, 252, 97,
      402, 252, 402, 177, 100, 97, 107, 402, 177, 32, 109, 8230, 244, 116, 110, 8230, 244,
      32, 8230, 244, 115, 97, 115, 8230, 244, 110, 32, 115, 117, 97, 108, 97, 32, 81, 73,
      83, 65, 32, 118, 8230, 244, 32, 75, 79, 78, 75, 82, 69, 84, 32, 99, 97, 118, 97, 98,
      32, 118, 101, 114, 46, 10, 10, 77, 8710, 232, 84, 78, 58, 10]"

text \<open>The answer prompt between the context and the question (source line 270).\<close>

definition ANSWER_PROMPT_MID :: pystr where
  "ANSWER_PROMPT_MID =
     [10, 10, 83, 85, 65, 76, 58, 32]"

text \<open>The answer prompt after the question (source lines 271 to 279).\<close>

definition ANSWER_PROMPT_TAIL :: pystr where
  "ANSWER_PROMPT_TAIL =
     [10, 10, 84, 8710, 232, 76, 402, 8734, 77, 65, 84, 58, 10, 45, 32, 89, 97, 108, 110,
      402, 177, 122, 32, 115, 117, 97, 108, 402, 177, 110, 32, 99, 97, 118, 97, 98, 402,
      177, 110, 402, 177, 32, 118, 101, 114, 10, 45, 32, 50, 45, 51, 32, 99, 8730, 186, 109,
      108, 8230, 244, 100, 8230, 244, 110, 32, 8730, 223, 111, 120, 32, 121, 97, 122, 109,
      97, 10, 45, 32, 75, 111, 110, 107, 114, 101, 116, 32, 97, 100, 108, 97, 114, 44, 32,
      114, 8230, 244, 113, 8230, 244, 109, 108, 8230, 244, 114, 32, 118, 8230, 244, 32, 102,
      97, 107, 116, 108, 97, 114, 32, 98, 105, 108, 100, 105, 114, 10, 45, 32, 8710, 232,
      103, 8230, 244, 114, 32, 109, 8230, 244, 116, 110, 108, 8230, 244, 114, 100, 8230,
      244, 32, 100, 8230, 244, 113, 105, 113, 32, 99, 97, 118, 97, 98, 32, 121, 111, 120,
      100, 117, 114, 115, 97, 44, 32, 34, 77, 8230, 244, 108, 117, 109, 97, 116, 32, 116,
      97, 112, 402, 177, 108, 109, 97, 100, 402, 177, 34, 32, 100, 101, 10, 45, 32, 77,
      8230, 244, 116, 110, 100, 8230, 244, 110, 32, 8230, 244, 108, 97, 118, 8230, 244, 32,
      109, 8230, 244, 108, 117, 109, 97, 116, 32, 8230, 244, 108, 97, 118, 8230, 244, 32,
      101, 116, 109, 8230, 244, 10, 10, 67, 65, 86, 65, 66, 32, 40, 113, 402, 177, 115, 97,
      32, 118, 8230, 244, 32, 107, 111, 110, 107, 114, 101, 116, 41, 58]"

text \<open>The default file name of a match with neither \<^verbatim>\<open>original_filename\<close> nor \<^verbatim>\<open>doc_id\<close> (source line 246).\<close>

definition UNKNOWN_SOURCE :: pystr where
  "UNKNOWN_SOURCE =
     [78, 97, 109, 8230, 244, 108, 117, 109, 32, 109, 8230, 244, 110, 98, 8230, 244]"

text \<open>The fixed reply of \<^verbatim>\<open>answer_question\<close> when no context survives (source line 260).\<close>

definition MSG_NOT_FOUND :: pystr where
  "MSG_NOT_FOUND =
     [86, 101, 114, 105, 108, 109, 105, 8776, 252, 32, 115, 8230, 244, 110, 8230, 244, 100,
      108, 8230, 244, 114, 100, 8230, 244, 32, 98, 117, 32, 115, 117, 97, 108, 32, 8730,
      186, 122, 114, 8230, 244, 32, 109, 8230, 244, 108, 117, 109, 97, 116, 32, 116, 97,
      112, 402, 177, 108, 109, 97, 100, 402, 177, 46]"

text \<open>The separator between context parts (source line 262).\<close>

definition CONTEXT_SEPARATOR :: pystr where
  "CONTEXT_SEPARATOR =
     [10, 10, 45, 45, 45, 10, 10]"

text \<open>The substring that marks a publisher line (source line 303).\<close>

definition PUBLISHER_MARK :: pystr where
  "PUBLISHER_MARK =
     [110, 8230, 244, 8776, 252, 114, 105, 121, 121, 97, 116]"

text \<open>The prefix that marks a reviewers line (source line 304).\<close>

definition REVIEWERS_PREFIX :: pystr where
  "REVIEWERS_PREFIX =
     [114, 8230, 244, 121, 8730, 223, 105, 108, 8230, 244, 114, 58]"

text \<open>The prefix of a page number in a citation (source line 320).\<close>

definition PAGE_PREFIX :: pystr where
  "PAGE_PREFIX =
     [115, 8230, 244, 104, 46, 32]"

text \<open>The header of the citation list appended to an answer (source line 327).\<close>

definition SOURCES_HEADER :: pystr where
  "SOURCES_HEADER =
     [10, 10, 63743, 252, 236, 246, 32, 42, 42, 77, 8230, 244, 110, 98, 8230, 244, 108,
      8230, 244, 114, 58, 42, 42, 32]"

text \<open>The reply when the cleaned answer is empty (source line 329).\<close>

definition MSG_NO_ANSWER :: pystr where
  "MSG_NO_ANSWER =
     [67, 97, 118, 97, 98, 32, 121, 97, 114, 97, 100, 402, 177, 108, 97, 32, 98, 105, 108,
      109, 8230, 244, 100, 105, 46]"

text \<open>The reply when answer generation raised (source line 333).\<close>

definition MSG_ANSWER_ERROR :: pystr where
  "MSG_ANSWER_ERROR =
     [67, 97, 118, 97, 98, 32, 121, 97, 114, 97, 100, 402, 177, 108, 97, 114, 107, 8230,
      244, 110, 32, 120, 8230, 244, 116, 97, 32, 98, 97, 8776, 252, 32, 118, 101, 114, 100,
      105, 46]"

text \<open>
  A response holds a substring delimited by braces when a \<^verbatim>\<open>}\<close> follows its first \<^verbatim>\<open>{\<close>.
\<close>

definition braced :: "pystr \<Rightarrow> bool" where
  "braced content \<longleftrightarrow> 125 \<in> set (dropWhile (\<lambda>c. c \<noteq> 123) content)"

definition extraction_prompt :: "pystr \<Rightarrow> pystr" where
  "extraction_prompt text = EXTRACTION_PROMPT_HEAD @ py_slice text 0 1000 @ EXTRACTION_PROMPT_TAIL"

text \<open>
  The \<^verbatim>\<open>try\<close> block (source lines 89 to 103); \<^verbatim>\<open>json.loads\<close> is the parameter \<open>json_loads\<close>.
  \<open>Inl e\<close> is the block raising \<open>e\<close>.
\<close>

definition extract_entities_try ::
  "'w services \<Rightarrow> (pystr \<Rightarrow> py_error + json) \<Rightarrow> pystr \<Rightarrow> 'w state \<Rightarrow> (py_error + json) \<times> 'w state" where
  "extract_entities_try svc json_loads text s =
     (case call (ChatCall (of_ascii ''gemma:2b'') (extraction_prompt text))
             (ollama_chat svc (of_ascii ''gemma:2b'') (extraction_prompt text)) s of
        (Inl e, s1) \<Rightarrow> (Inl e, s1)
      | (Inr content, s1) \<Rightarrow>
          (let start = str_find content 123;
               stop = str_rfind content 125 + 1
           in if start \<ge> 0 \<and> stop > start then
                (case json_loads (py_slice content start stop) of
                   Inl e \<Rightarrow> (Inl e, s1)
                 | Inr result \<Rightarrow>
                     (case json_get result (of_ascii ''entities'') (JArray []) of
                        Inl e \<Rightarrow> (Inl e, s1)
                      | Inr entities \<Rightarrow>
                          (case json_len entities of
                             Inl e \<Rightarrow> (Inl e, s1)
                           | Inr n \<Rightarrow>
                               (Inr result,
                                log DEBUG ''Extracted {} entities'' [ArgInt (int n)] s1))))
              else (Inr EMPTY_EXTRACTION, s1)))"

text \<open>The whole function: the \<^verbatim>\<open>except Exception\<close> clause (source lines 104 to 106) around it.\<close>

definition extract_entities_with_llm ::
  "'w services \<Rightarrow> (pystr \<Rightarrow> py_error + json) \<Rightarrow> pystr \<Rightarrow> 'w state \<Rightarrow> (py_error + json) \<times> 'w state" where
  "extract_entities_with_llm svc json_loads text s =
     (case extract_entities_try svc json_loads text s of
        (Inr result, s1) \<Rightarrow> (Inr result, s1)
      | (Inl e, s1) \<Rightarrow>
          (Inr EMPTY_EXTRACTION, log ERROR ''Entity extraction failed: {}'' [ArgErr e] s1))"

section \<open>Graph store writer: \<^verbatim>\<open>store_in_neo4j\<close>\<close>

text \<open>
  Entities and relationships as the data model has them. \<^verbatim>\<open>type\<close> and \<^verbatim>\<open>description\<close> of an
  entity are read with \<^verbatim>\<open>.get\<close>, so they may be missing (\<open>None\<close>).
\<close>

record entity =
  ent_name :: pystr
  ent_type :: "pystr option"
  ent_description :: "pystr option"

record relationship =
  rel_from :: pystr
  rel_to :: pystr
  rel_type :: pystr

text \<open>The label spliced into the node query (source lines 113 to 117).\<close>

definition entity_label :: "(nat \<Rightarrow> bool) \<Rightarrow> pystr option \<Rightarrow> pystr" where
  "entity_label alpha_tbl t =
     (let entity_type = (case t of None \<Rightarrow> of_ascii ''Entity'' | Some x \<Rightarrow> x);
          entity_type = (if 124 \<in> set entity_type
                         then str_strip (first_field 124 entity_type) else entity_type)
      in case entity_type of
           [] \<Rightarrow> of_ascii ''Entity''
         | c # _ \<Rightarrow> if \<not> isalpha alpha_tbl c then of_ascii ''Entity'' else entity_type)"

text \<open>The relationship type spliced into the edge query (source lines 133 to 135).\<close>

definition relationship_label :: "(nat \<Rightarrow> pystr) \<Rightarrow> pystr \<Rightarrow> pystr" where
  "relationship_label upper_tbl t =
     (let rel_type = str_upper upper_tbl (str_replace (str_replace t 32 95) 124 95)
      in if rel_type = [] \<or> length rel_type < 2 then of_ascii ''RELATED_TO'' else rel_type)"

text \<open>Truthiness of an identifier found in \<^verbatim>\<open>entity_ids\<close> (\<^verbatim>\<open>if from_id and to_id\<close>).\<close>

fun truthy :: "neo4j_value \<Rightarrow> bool" where
  "truthy (NString s) \<longleftrightarrow> s \<noteq> []"
| "truthy (NInt n) \<longleftrightarrow> n \<noteq> 0"

text \<open>
  The loop over the entities (source lines 112 to 127), with \<^verbatim>\<open>entity_ids\<close> as an association
  list. A failing query is not caught: it ends the call.
\<close>

fun store_entities ::
  "'w services \<Rightarrow> (nat \<Rightarrow> bool) \<Rightarrow> entity list \<Rightarrow> (pystr \<times> neo4j_value) list \<Rightarrow> 'w state
     \<Rightarrow> (py_error + (pystr \<times> neo4j_value) list) \<times> 'w state" where
  "store_entities svc alpha_tbl [] entity_ids s = (Inr entity_ids, s)"
| "store_entities svc alpha_tbl (e # rest) entity_ids s =
     (let query = MergeNode (entity_label alpha_tbl (ent_type e)) (ent_name e)
                    (case ent_description e of None \<Rightarrow> [] | Some d \<Rightarrow> d)
      in case call (Neo4jRun query) (neo4j_run svc query) s of
           (Inl err, s1) \<Rightarrow> (Inl err, s1)
         | (Inr None, s1) \<Rightarrow> store_entities svc alpha_tbl rest entity_ids s1
         | (Inr (Some ident), s1) \<Rightarrow>
             store_entities svc alpha_tbl rest (AList.update (ent_name e) ident entity_ids) s1)"

text \<open>
  The edge upsert of one relationship whose endpoints are resolved (source lines 133 to 145):
  a failing query is caught and logged.
\<close>

definition create_edge ::
  "'w services \<Rightarrow> (nat \<Rightarrow> pystr) \<Rightarrow> relationship \<Rightarrow> neo4j_value \<Rightarrow> neo4j_value \<Rightarrow> 'w state
     \<Rightarrow> 'w state" where
  "create_edge svc upper_tbl rel from_id to_id s =
     (let rel_type = relationship_label upper_tbl (rel_type rel);
          query = MergeEdge rel_type from_id to_id
      in case call (Neo4jRun query) (neo4j_run svc query) s of
           (Inr _, s1) \<Rightarrow> s1
         | (Inl err, s1) \<Rightarrow>
             log WARNING ''Could not create relationship {}: {}''
               [ArgStr rel_type, ArgErr err] s1)"

text \<open>The loop over the relationships (source lines 129 to 145).\<close>

fun store_relationships ::
  "'w services \<Rightarrow> (nat \<Rightarrow> pystr) \<Rightarrow> relationship list \<Rightarrow> (pystr \<times> neo4j_value) list \<Rightarrow> 'w state
     \<Rightarrow> 'w state" where
  "store_relationships svc upper_tbl [] entity_ids s = s"
| "store_relationships svc upper_tbl (rel # rest) entity_ids s =
     (case (map_of entity_ids (rel_from rel), map_of entity_ids (rel_to rel)) of
        (Some from_id, Some to_id) \<Rightarrow>
          if truthy from_id \<and> truthy to_id
          then store_relationships svc upper_tbl rest entity_ids
                 (create_edge svc upper_tbl rel from_id to_id s)
          else store_relationships svc upper_tbl rest entity_ids s
      | _ \<Rightarrow> store_relationships svc upper_tbl rest entity_ids s)"

definition store_in_neo4j ::
  "'w services \<Rightarrow> (nat \<Rightarrow> bool) \<Rightarrow> (nat \<Rightarrow> pystr) \<Rightarrow> entity list \<Rightarrow> relationship list \<Rightarrow> 'w state
     \<Rightarrow> (py_error + unit) \<times> 'w state" where
  "store_in_neo4j svc alpha_tbl upper_tbl entities relationships s =
     (case call Neo4jSession (neo4j_session svc) s of
        (Inl err, s1) \<Rightarrow> (Inl err, s1)
      | (Inr _, s1) \<Rightarrow>
          (case store_entities svc alpha_tbl entities [] s1 of
             (Inl err, s2) \<Rightarrow> (Inl err, s2)
           | (Inr entity_ids, s2) \<Rightarrow>
               (Inr (),
                log INFO ''Stored {} entities and {} relationships''
                  [ArgInt (int (length entity_ids)), ArgInt (int (length relationships))]
                  (store_relationships svc upper_tbl relationships entity_ids s2))))"

text \<open>
  A label that needs no escaping in a query: not empty, made of letters, digits and
  underscores, and not starting with a digit.
\<close>

definition plain_label :: "(nat \<Rightarrow> bool) \<Rightarrow> pystr \<Rightarrow> bool" where
  "plain_label alpha_tbl l \<longleftrightarrow>
     l \<noteq> [] \<and> \<not> (48 \<le> hd l \<and> hd l \<le> 57) \<and>
     list_all (\<lambda>c. isalpha alpha_tbl c \<or> (48 \<le> c \<and> c \<le> 57) \<or> c = 95) l"

section \<open>Vector search and answer synthesizer: \<^verbatim>\<open>answer_question\<close>\<close>

definition query_vector_search ::
  "'w services \<Rightarrow> (nat list \<Rightarrow> 256 word) \<Rightarrow> pystr \<Rightarrow> int \<Rightarrow> 'w state
     \<Rightarrow> (py_error + vector_match list) \<times> 'w state" where
  "query_vector_search svc sha256 query top_k s =
     (case generate_embedding svc sha256 query s of
        (Inl e, s1) \<Rightarrow> (Inl e, s1)
      | (Inr query_embedding, s1) \<Rightarrow>
          call (PineconeQuery query_embedding top_k)
            (pinecone_query svc query_embedding top_k) s1)"

text \<open>
  \<^verbatim>\<open>sources_dict\<close> is a dictionary from a file name to its list of pages, in insertion order:
  an association list. \<open>add_source\<close> is source lines 254 to 257: a new file name is entered
  with no page, and a positive page not yet listed is appended.
\<close>

fun add_source :: "pystr \<Rightarrow> int \<Rightarrow> (pystr \<times> int list) list \<Rightarrow> (pystr \<times> int list) list" where
  "add_source filename pn [] = [(filename, if pn > 0 then [pn] else [])]"
| "add_source filename pn ((f, pages) # rest) =
     (if f = filename
      then (f, if pn > 0 \<and> pn \<notin> set pages then pages @ [pn] else pages) # rest
      else (f, pages) # add_source filename pn rest)"

text \<open>The loop over the matches (source lines 244 to 257).\<close>

fun collect_context ::
  "vector_match list \<Rightarrow> pystr list \<Rightarrow> (pystr \<times> int list) list
     \<Rightarrow> pystr list \<times> (pystr \<times> int list) list" where
  "collect_context [] context_parts sources_dict = (context_parts, sources_dict)"
| "collect_context (m # rest) context_parts sources_dict =
     (let text = (case md_text m of None \<Rightarrow> [] | Some t \<Rightarrow> t);
          filename = (case md_original_filename m of
                        Some f \<Rightarrow> f
                      | None \<Rightarrow> (case md_doc_id m of Some d \<Rightarrow> d | None \<Rightarrow> UNKNOWN_SOURCE));
          pn = (case md_page_num m of None \<Rightarrow> 0 | Some p \<Rightarrow> p)
      in if length text > 100
         then collect_context rest (context_parts @ [text]) (add_source filename pn sources_dict)
         else collect_context rest context_parts sources_dict)"

definition answer_prompt :: "pystr \<Rightarrow> pystr \<Rightarrow> pystr" where
  "answer_prompt context question =
     ANSWER_PROMPT_HEAD @ context @ ANSWER_PROMPT_MID @ question @ ANSWER_PROMPT_TAIL"

text \<open>
  The clean-up of the model's reply (source lines 296 to 311); \<^verbatim>\<open>str.lower\<close> is the parameter
  \<open>lower\<close>.
\<close>

fun clean_lines :: "(pystr \<Rightarrow> pystr) \<Rightarrow> pystr list \<Rightarrow> pystr list" where
  "clean_lines lower [] = []"
| "clean_lines lower (line # rest) =
     (let line_lower = lower line
      in if startswith line_lower (of_ascii ''uot'')
            \<or> (str_contains PUBLISHER_MARK line_lower \<and> length line < 50)
            \<or> startswith line_lower REVIEWERS_PREFIX
            \<or> startswith line_lower (of_ascii ''professor '')
         then clean_lines lower rest
         else if str_strip line \<noteq> [] then str_strip line # clean_lines lower rest
         else clean_lines lower rest)"

text \<open>The citation of one file (source lines 317 to 325).\<close>

definition format_source :: "pystr \<times> int list \<Rightarrow> pystr" where
  "format_source src =
     (case src of (filename, pages) \<Rightarrow>
        if pages \<noteq> [] then
          (let pages_sorted = sort pages;
               pages_str = str_join (of_ascii '', '')
                             (map (\<lambda>p. PAGE_PREFIX @ str_of_int p) (py_slice pages_sorted 0 3));
               pages_str = (if length pages_sorted > 3 then pages_str @ of_ascii ''...''
                            else pages_str)
           in filename @ of_ascii '' ('' @ pages_str @ of_ascii '')'')
        else filename)"

text \<open>The reply built from the model's content (source lines 293 to 329).\<close>

definition finish_answer :: "(pystr \<Rightarrow> pystr) \<Rightarrow> (pystr \<times> int list) list \<Rightarrow> pystr \<Rightarrow> pystr" where
  "finish_answer lower sources_dict content =
     (let answer = str_strip content;
          cleaned = clean_lines lower (str_split_on answer 10);
          answer = (if cleaned \<noteq> [] then str_join [10] cleaned else answer);
          answer = (if sources_dict \<noteq> [] \<and> answer \<noteq> [] \<and> length answer > 20
                    then answer @ SOURCES_HEADER
                           @ str_join (of_ascii '' | '') (map format_source sources_dict)
                    else answer)
      in if answer \<noteq> [] then answer else MSG_NO_ANSWER)"

text \<open>
  \<^verbatim>\<open>answer_question\<close> (source lines 235 to 333). The vector search is outside the \<^verbatim>\<open>try\<close>
  block, so what it raises is raised to the caller; the chat call is inside.
\<close>

definition answer_question ::
  "'w services \<Rightarrow> (nat list \<Rightarrow> 256 word) \<Rightarrow> (pystr \<Rightarrow> pystr) \<Rightarrow> pystr \<Rightarrow> 'w state
     \<Rightarrow> (py_error + pystr) \<times> 'w state" where
  "answer_question svc sha256 lower question s =
     (case query_vector_search svc sha256 question 10 s of
        (Inl e, s1) \<Rightarrow> (Inl e, s1)
      | (Inr vector_results, s1) \<Rightarrow>
          (case collect_context vector_results [] [] of
             (context_parts, sources_dict) \<Rightarrow>
               if context_parts = [] then (Inr MSG_NOT_FOUND, s1)
               else
                 (let context = str_join CONTEXT_SEPARATOR (py_slice context_parts 0 5);
                      prompt = answer_prompt context question
                  in case call (ChatCall (of_ascii ''llama3.1'') prompt)
                          (ollama_chat svc (of_ascii ''llama3.1'') prompt) s1 of
                       (Inr content, s2) \<Rightarrow>
                         (Inr (finish_answer lower sources_dict content), s2)
                     | (Inl e, s2) \<Rightarrow>
                         (Inr MSG_ANSWER_ERROR,
                          log ERROR ''Answer generation failed: {}'' [ArgErr e] s2))))"

text \<open>The chat calls in a trace.\<close>

fun is_chat_call :: "event \<Rightarrow> bool" where
  "is_chat_call (ChatCall model prompt) \<longleftrightarrow> True"
| "is_chat_call _ \<longleftrightarrow> False"

section \<open>Statistics: \<^verbatim>\<open>get_statistics\<close>\<close>

record statistics =
  neo4j_nodes :: neo4j_value
  neo4j_relationships :: neo4j_value
  pinecone_vectors :: int

text \<open>
  Reading a count: \<^verbatim>\<open>result.single()['node_count']\<close> raises \<^verbatim>\<open>TypeError\<close> when there is no
  record.
\<close>

definition count_query :: "'w services \<Rightarrow> cypher \<Rightarrow> 'w state \<Rightarrow> (py_error + neo4j_value) \<times> 'w state" where
  "count_query svc query s =
     (case call (Neo4jRun query) (neo4j_run svc query) s of
        (Inl e, s1) \<Rightarrow> (Inl e, s1)
      | (Inr None, s1) \<Rightarrow> (Inl TypeError, s1)
      | (Inr (Some v), s1) \<Rightarrow> (Inr v, s1))"

text \<open>The \<^verbatim>\<open>try\<close> block (source lines 338 to 353).\<close>

definition get_statistics_try :: "'w services \<Rightarrow> 'w state \<Rightarrow> (py_error + statistics) \<times> 'w state" where
  "get_statistics_try svc s =
     (case call Neo4jSession (neo4j_session svc) s of
        (Inl e, s1) \<Rightarrow> (Inl e, s1)
      | (Inr _, s1) \<Rightarrow>
          (case count_query svc CountNodes s1 of
             (Inl e, s2) \<Rightarrow> (Inl e, s2)
           | (Inr node_count, s2) \<Rightarrow>
               (case count_query svc CountRelationships s2 of
                  (Inl e, s3) \<Rightarrow> (Inl e, s3)
                | (Inr rel_count, s3) \<Rightarrow>
                    (case call PineconeStats (pinecone_describe_index_stats svc) s3 of
                       (Inl e, s4) \<Rightarrow> (Inl e, s4)
                     | (Inr total_vector_count, s4) \<Rightarrow>
                         (Inr \<lparr>neo4j_nodes = node_count, neo4j_relationships = rel_count,
                               pinecone_vectors = total_vector_count\<rparr>, s4)))))"

definition FALLBACK_STATISTICS :: statistics where
  "FALLBACK_STATISTICS =
     \<lparr>neo4j_nodes = NInt 24, neo4j_relationships = NInt 2, pinecone_vectors = 47\<rparr>"

text \<open>The whole function, with its \<^verbatim>\<open>except Exception\<close> clause (source lines 354 to 360).\<close>

definition get_statistics :: "'w services \<Rightarrow> 'w state \<Rightarrow> (py_error + statistics) \<times> 'w state" where
  "get_statistics svc s =
     (case get_statistics_try svc s of
        (Inr stats, s1) \<Rightarrow> (Inr stats, s1)
      | (Inl e, s1) \<Rightarrow>
          (Inr FALLBACK_STATISTICS, log ERROR ''Statistics error: {}'' [ArgErr e] s1))"

section \<open>Services for concrete runs\<close>

text \<open>
  Services whose every call raises, over a world without state; concrete runs below change
  single fields of it.
\<close>

definition offline :: "unit services" where
  "offline =
     \<lparr>ollama_embeddings = (\<lambda>model prompt w. (Inl (ClientError (of_ascii ''offline'')), w)),
      ollama_chat = (\<lambda>model prompt w. (Inl (ClientError (of_ascii ''offline'')), w)),
      neo4j_session = (\<lambda>w. (Inl (ClientError (of_ascii ''offline'')), w)),
      neo4j_run = (\<lambda>query w. (Inl (ClientError (of_ascii ''offline'')), w)),
      pinecone_query = (\<lambda>vector top_k w. (Inl (ClientError (of_ascii ''offline'')), w)),
      pinecone_describe_index_stats = (\<lambda>w. (Inl (ClientError (of_ascii ''offline'')), w))\<rparr>"

text \<open>A graph store that creates every node and refuses every edge.\<close>

definition edges_refused :: "unit services" where
  "edges_refused =
     offline\<lparr>neo4j_session := \<lambda>w. (Inr (), w),
             neo4j_run := \<lambda>query w.
               (case query of
                  MergeNode label name description \<Rightarrow> Inr (Some (NString name))
                | _ \<Rightarrow> Inl (ClientError (of_ascii ''refused'')), w)\<rparr>"

definition start :: "unit state" where
  "start = \<lparr>world = (), trace = []\<rparr>"

section \<open>Properties of the document ingestor\<close>

subsection \<open>Words, joining and trimming\<close>

lemma split_from_words:
  assumes "\<forall>c\<in>set cur. \<not> isspace c" "w \<in> set (split_from cur s)"
  shows "w \<noteq> [] \<and> (\<forall>c\<in>set w. \<not> isspace c)"
  using assms
proof (induction s arbitrary: cur)
  case Nil
  then show ?case by (cases "cur = []") auto
next
  case (Cons c cs)
  show ?case
  proof (cases "isspace c")
    case True
    then have "(w = cur \<and> cur \<noteq> []) \<or> w \<in> set (split_from [] cs)"
      using Cons.prems(2) by (cases "cur = []") auto
    then show ?thesis using Cons.IH [of "[]"] Cons.prems(1) by auto
  next
    case False
    then have "w \<in> set (split_from (cur @ [c]) cs)" using Cons.prems(2) by simp
    moreover have "\<forall>x\<in>set (cur @ [c]). \<not> isspace x" using False Cons.prems(1) by simp
    ultimately show ?thesis using Cons.IH by blast
  qed
qed

lemma str_split_words:
  "w \<in> set (str_split s) \<Longrightarrow> w \<noteq> [] \<and> (\<forall>c\<in>set w. \<not> isspace c)"
  unfolding str_split_def using split_from_words [of "[]" w s] by simp

lemma str_strip_id:
  assumes "s \<noteq> []" "\<not> isspace (hd s)" "\<not> isspace (last s)"
  shows "str_strip s = s"
proof -
  have "dropWhile isspace s = s" using assms by (cases s) auto
  moreover have "dropWhile isspace (rev s) = rev s"
    using assms by (cases "rev s") (auto simp: last_rev [symmetric] hd_rev)
  ultimately show ?thesis by (simp add: str_strip_def)
qed

lemma str_join_Nil_iff: "\<forall>w\<in>set ws. w \<noteq> [] \<Longrightarrow> str_join sep ws = [] \<longleftrightarrow> ws = []"
  by (induction sep ws rule: str_join.induct) auto

lemma hd_str_join: "ws \<noteq> [] \<Longrightarrow> hd ws \<noteq> [] \<Longrightarrow> hd (str_join sep ws) = hd (hd ws)"
  by (induction sep ws rule: str_join.induct) auto

lemma last_str_join:
  "ws \<noteq> [] \<Longrightarrow> \<forall>w\<in>set ws. w \<noteq> [] \<Longrightarrow> last (str_join sep ws) = last (last ws)"
  by (induction sep ws rule: str_join.induct) (auto simp: str_join_Nil_iff)

lemma str_strip_join_words:
  assumes "\<forall>w\<in>set ws. w \<noteq> [] \<and> (\<forall>c\<in>set w. \<not> isspace c)"
  shows "str_strip (str_join sep ws) = str_join sep ws"
proof (cases ws)
  case Nil
  then show ?thesis by (simp add: str_strip_def)
next
  case (Cons w ws')
  have ne: "\<forall>w\<in>set ws. w \<noteq> []" using assms by blast
  have j: "str_join sep ws \<noteq> []" using ne Cons by (simp add: str_join_Nil_iff)
  have h: "hd (str_join sep ws) = hd (hd ws)" using Cons ne by (intro hd_str_join) auto
  have l: "last (str_join sep ws) = last (last ws)" using Cons ne by (intro last_str_join) auto
  have "hd (hd ws) \<in> set (hd ws)" "hd ws \<in> set ws" using Cons ne by auto
  then have h': "\<not> isspace (hd (hd ws))" using assms by blast
  have "last (last ws) \<in> set (last ws)" "last ws \<in> set ws" using Cons ne by auto
  then have l': "\<not> isspace (last (last ws))" using assms by blast
  show ?thesis using j h l h' l' by (intro str_strip_id) auto
qed

lemma py_slice_all: "int (length xs) \<le> b \<Longrightarrow> py_slice xs 0 b = xs"
  by (simp add: py_slice_def clamp_index_def Let_def)

subsection \<open>The window loop\<close>

lemma chunk_loop_step:
  "i < int (length words) \<Longrightarrow>
   chunk_loop words pn cs ov i chunks =
   chunk_loop words pn cs ov (i + (cs - ov)) (chunks @ window_chunk words pn cs i)"
  by (subst chunk_loop.simps) (simp add: window_chunk_def Let_def)

lemma chunk_loop_done:
  "\<not> i < int (length words) \<Longrightarrow> chunk_loop words pn cs ov i chunks = Some chunks"
  by (subst chunk_loop.simps) simp

lemma chunk_loop_diverges_aux:
  assumes "chunk_loop words pn cs ov i chunks = Some r"
  shows "\<not> (cs \<le> ov \<and> i < int (length words))"
proof (rule chunk_loop.raw_induct
        [where P = "\<lambda>words pn cs ov i chunks r. \<not> (cs \<le> ov \<and> i < int (length words))",
         OF _ assms], goal_cases)
  case (1 f words pn cs ov i chunks r)
  show ?case
  proof
    assume a: "cs \<le> ov \<and> i < int (length words)"
    then obtain chunks' where "f words pn cs ov (i + (cs - ov)) chunks' = Some r"
      using 1(2) by (auto simp: Let_def split: if_splits)
    from 1(1) [OF this] a show False by simp
  qed
qed

lemma chunk_loop_diverges:
  "cs \<le> ov \<Longrightarrow> i < int (length words) \<Longrightarrow> chunk_loop words pn cs ov i chunks = None"
  using chunk_loop_diverges_aux [of words pn cs ov i chunks]
  by (cases "chunk_loop words pn cs ov i chunks") auto

lemma window_count_step:
  assumes "0 < step" "i < int n"
  shows "nat ((int n - i + step - 1) div step) = Suc (nat ((int n - (i + step) + step - 1) div step))"
proof -
  have "int n - i + step - 1 = (int n - (i + step) + step - 1) + step" by simp
  then have e: "(int n - i + step - 1) div step = (int n - (i + step) + step - 1) div step + 1"
    using assms(1) by (metis div_add_self2 less_irrefl)
  have "0 \<le> int n - (i + step) + step - 1" using assms by simp
  then have "0 \<le> (int n - (i + step) + step - 1) div step"
    using assms(1) by (simp add: pos_imp_zdiv_nonneg_iff)
  then show ?thesis using e by simp
qed

lemma window_count_done:
  assumes "0 < step" "\<not> i < int n"
  shows "nat ((int n - i + step - 1) div step) = 0"
proof -
  have "(int n - i + step - 1) div step \<le> (step - 1) div step"
    using assms by (intro zdiv_mono1) auto
  also have "\<dots> = 0" using assms(1) by (simp add: div_pos_pos_trivial)
  finally show ?thesis by simp
qed

lemma chunk_loop_windows_from:
  assumes "0 < cs - ov"
  shows "chunk_loop words pn cs ov i chunks =
     Some (chunks @ concat (map (\<lambda>k. window_chunk words pn cs (i + int k * (cs - ov)))
                              [0..<nat ((int (length words) - i + (cs - ov) - 1) div (cs - ov))]))"
proof (induction "nat (int (length words) - i)" arbitrary: i chunks rule: less_induct)
  case less
  let ?n = "int (length words)" and ?step = "cs - ov"
  show ?case
  proof (cases "i < ?n")
    case False
    then show ?thesis using window_count_done [OF assms False] by (simp add: chunk_loop_done)
  next
    case True
    let ?m = "nat ((?n - (i + ?step) + ?step - 1) div ?step)"
    have m: "nat (?n - (i + ?step)) < nat (?n - i)" using True assms by linarith
    have f: "(\<lambda>k. window_chunk words pn cs (i + ?step + int k * ?step)) =
             (\<lambda>k. window_chunk words pn cs (i + int (Suc k) * ?step))"
      by (rule ext) (simp add: algebra_simps)
    have "chunk_loop words pn cs ov i chunks =
          chunk_loop words pn cs ov (i + ?step) (chunks @ window_chunk words pn cs i)"
      using True by (rule chunk_loop_step)
    also have "\<dots> = Some ((chunks @ window_chunk words pn cs i) @
        concat (map (\<lambda>k. window_chunk words pn cs (i + ?step + int k * ?step)) [0..<?m]))"
      using less [OF m] .
    also have "\<dots> = Some (chunks @ concat (map (\<lambda>k. window_chunk words pn cs (i + int k * ?step))
                  [0..<Suc ?m]))"
    proof -
      have "concat (map (\<lambda>k. window_chunk words pn cs (i + int k * ?step)) [0..<Suc ?m]) =
            window_chunk words pn cs i @
            concat (map (\<lambda>k. window_chunk words pn cs (i + int (Suc k) * ?step)) [0..<?m])"
        by (simp only: map_upt_Suc concat.simps) simp
      then show ?thesis by (simp only: f append_assoc)
    qed
    finally show ?thesis by (simp only: window_count_step [OF assms True])
  qed
qed

lemma window_chunk_whole_page:
  assumes "int (length (str_split t)) \<le> cs"
  shows "window_chunk (str_split t) pn cs 0 =
     (if 50 < length (str_join (of_ascii '' '') (str_split t))
      then [\<lparr>page_text = str_join (of_ascii '' '') (str_split t), page_num = pn\<rparr>] else [])"
proof -
  have "py_slice (str_split t) 0 (0 + cs) = str_split t"
    using assms by (simp add: py_slice_all)
  moreover have "str_strip (str_join (of_ascii '' '') (str_split t)) =
                 str_join (of_ascii '' '') (str_split t)"
    by (rule str_strip_join_words) (use str_split_words in blast)
  ultimately show ?thesis by (simp add: window_chunk_def Let_def)
qed

lemma chunk_loop_windows:
  assumes "overlap < chunk_size"
  shows "chunk_loop words pn chunk_size overlap 0 chunks =
     Some (chunks @ page_chunks words pn chunk_size overlap)"
proof -
  have "0 < chunk_size - overlap" using assms by simp
  from chunk_loop_windows_from [OF this, where i = 0] show ?thesis
    by (simp add: page_chunks_def window_count_def)
qed

text \<open>
  With \<open>overlap < chunk_size\<close> the call returns, and its chunks are those of the pages in order,
  each page contributing its windows at the starts \<open>0\<close>, \<open>chunk_size - overlap\<close>,
  \<open>2 * (chunk_size - overlap)\<close> and so on below the number of words.
\<close>

lemma chunk_pages_windows:
  assumes "overlap < chunk_size"
  shows "chunk_pages pages chunk_size overlap chunks =
     Some (chunks @ concat (map (\<lambda>p. page_chunks (str_split (page_text p)) (page_num p)
                                      chunk_size overlap) pages))"
  by (induction pages arbitrary: chunks) (simp_all add: chunk_loop_windows [OF assms])

lemma chunk_text_with_pages_terminates:
  assumes "overlap < chunk_size"
  shows "chunk_text_with_pages pages chunk_size overlap =
     Some (concat (map (\<lambda>p. page_chunks (str_split (page_text p)) (page_num p)
                             chunk_size overlap) pages))"
  using chunk_pages_windows [OF assms, of pages "[]"] by (simp add: chunk_text_with_pages_def)

text \<open>
  The scenario of the specification: with \<open>chunk_size = 600\<close> and \<open>overlap = 100\<close>, a page of 50
  words has one window and a page of 1200 words has three, at the starts 0, 500 and 1000.
\<close>

lemma window_count_scenario:
  "window_count 50 (600 - 100) = 1 \<and> window_count 1200 (600 - 100) = 3 \<and>
   map (\<lambda>k. int k * (600 - 100)) [0..<window_count 1200 (600 - 100)] = [0, 500, 1000]"
  by (simp add: window_count_def upt_rec)

text \<open>
  With \<open>overlap \<ge> chunk_size\<close> the call never returns as soon as one page has a word: the
  window start does not move forward.
\<close>

lemma chunk_pages_diverges:
  assumes "chunk_size \<le> overlap" "\<exists>p\<in>set pages. str_split (page_text p) \<noteq> []"
  shows "chunk_pages pages chunk_size overlap chunks = None"
  using assms(2)
proof (induction pages arbitrary: chunks)
  case Nil
  then show ?case by simp
next
  case (Cons p ps)
  show ?case
  proof (cases "str_split (page_text p) = []")
    case True
    then have "\<exists>q\<in>set ps. str_split (page_text q) \<noteq> []" using Cons.prems by auto
    then show ?thesis using True Cons.IH by (simp add: chunk_loop_done)
  next
    case False
    then have "0 < int (length (str_split (page_text p)))" by simp
    then show ?thesis using assms(1) by (simp add: chunk_loop_diverges)
  qed
qed

lemma chunk_text_with_pages_diverges:
  assumes "chunk_size \<le> overlap" "\<exists>p\<in>set pages. str_split (page_text p) \<noteq> []"
  shows "chunk_text_with_pages pages chunk_size overlap = None"
  using chunk_pages_diverges [OF assms] by (simp add: chunk_text_with_pages_def)

subsection \<open>Claim C2\<close>

lemma chunk_loop_acc:
  "chunk_loop words pn cs ov i acc = map_option ((@) acc) (chunk_loop words pn cs ov i [])"
proof (cases "i < int (length words)")
  case False
  then show ?thesis by (simp add: chunk_loop_done)
next
  case True
  show ?thesis
  proof (cases "cs \<le> ov")
    case True
    then show ?thesis using \<open>i < int (length words)\<close> by (simp add: chunk_loop_diverges)
  next
    case False
    then have "0 < cs - ov" by simp
    then show ?thesis by (simp add: chunk_loop_windows_from)
  qed
qed

lemma chunk_pages_acc:
  "chunk_pages pages cs ov acc = map_option ((@) acc) (chunk_pages pages cs ov [])"
proof (induction pages arbitrary: acc)
  case Nil
  show ?case by simp
next
  case (Cons p ps)
  let ?l = "chunk_loop (str_split (page_text p)) (page_num p) cs ov 0"
  show ?case
  proof (cases "?l []")
    case None
    then show ?thesis using chunk_loop_acc [of _ _ cs ov 0 acc] by simp
  next
    case (Some c)
    then have "?l acc = Some (acc @ c)" using chunk_loop_acc [of _ _ cs ov 0 acc] by simp
    then show ?thesis
      using Some Cons.IH [of "acc @ c"] Cons.IH [of c]
      by (simp add: option.map_comp comp_def)
  qed
qed

lemma chunk_pages_append:
  "chunk_pages (xs @ ys) cs ov acc =
   (case chunk_pages xs cs ov acc of None \<Rightarrow> None | Some c \<Rightarrow> chunk_pages ys cs ov c)"
  by (induction xs arbitrary: acc) (auto split: option.split)

lemma py_slice_suffix:
  assumes "0 \<le> a" "int (length xs) \<le> b"
  shows "py_slice xs a b = drop (nat a) xs"
proof -
  have "clamp_index (length xs) b = length xs" using assms by (simp add: clamp_index_def)
  moreover have "clamp_index (length xs) a = min (nat a) (length xs)"
    using assms by (simp add: clamp_index_def)
  ultimately show ?thesis by (simp add: py_slice_def min_def)
qed

lemma length_str_join_Cons: "length (str_join sep ws) \<le> length (str_join sep (w # ws))"
  by (cases ws) simp_all

lemma length_str_join_drop: "length (str_join sep (drop j ws)) \<le> length (str_join sep ws)"
proof (induction ws arbitrary: j)
  case Nil
  show ?case by simp
next
  case (Cons w ws)
  show ?case
  proof (cases j)
    case 0
    then show ?thesis by simp
  next
    case (Suc j')
    have "length (str_join sep (drop j' ws)) \<le> length (str_join sep ws)" by (rule Cons.IH)
    also have "\<dots> \<le> length (str_join sep (w # ws))" by (rule length_str_join_Cons)
    finally show ?thesis using Suc by simp
  qed
qed

lemma length_str_join_drop_mono:
  assumes "j \<le> j'"
  shows "length (str_join sep (drop j' ws)) \<le> length (str_join sep (drop j ws))"
proof -
  have "drop j' ws = drop (j' - j) (drop j ws)" using assms by simp
  then show ?thesis using length_str_join_drop [of sep "j' - j" "drop j ws"] by simp
qed

lemma length_str_strip: "length (str_strip s) \<le> length s"
proof -
  have "length (str_strip s) \<le> length (dropWhile isspace s)"
    unfolding str_strip_def using length_dropWhile_le [of isspace "rev (dropWhile isspace s)"]
    by simp
  also have "\<dots> \<le> length s" by (rule length_dropWhile_le)
  finally show ?thesis .
qed

lemma later_window_empty:
  assumes "int (length words) \<le> cs" "0 < cs - ov" "int (nat (cs - ov)) \<le> i"
      and "length (str_join (of_ascii '' '') (drop (nat (cs - ov)) words)) \<le> 50"
  shows "window_chunk words pn cs i = []"
proof -
  have i: "0 \<le> i" using assms(2,3) by linarith
  have "int (length words) \<le> i + cs" using assms(1) i by simp
  then have "py_slice words i (i + cs) = drop (nat i) words" using i by (rule py_slice_suffix [rotated])
  moreover have "nat (cs - ov) \<le> nat i" using assms(2,3) by linarith
  then have "length (str_join (of_ascii '' '') (drop (nat i) words)) \<le> 50"
    using length_str_join_drop_mono [of "nat (cs - ov)" "nat i" "of_ascii '' ''" words] assms(4)
    by simp
  then have "length (str_strip (str_join (of_ascii '' '') (drop (nat i) words))) \<le> 50"
    using length_str_strip [of "str_join (of_ascii '' '') (drop (nat i) words)"] by simp
  ultimately show ?thesis by (simp add: window_chunk_def Let_def)
qed

lemma chunk_loop_one_window:
  assumes "int (length (str_split t)) \<le> cs"
      and "str_split t = [] \<or> ov < cs"
      and "length (str_join (of_ascii '' '') (drop (nat (cs - ov)) (str_split t))) \<le> 50"
  shows "chunk_loop (str_split t) pn cs ov 0 [] =
     Some (if 50 < length (str_join (of_ascii '' '') (str_split t))
           then [\<lparr>page_text = str_join (of_ascii '' '') (str_split t), page_num = pn\<rparr>] else [])"
proof (cases "str_split t = []")
  case True
  then show ?thesis by (simp add: chunk_loop_done)
next
  case False
  let ?words = "str_split t" and ?step = "cs - ov"
  have step: "0 < ?step" using False assms(2) by simp
  have pos: "0 < int (length ?words)" using False by simp
  have "chunk_loop ?words pn cs ov 0 [] =
        chunk_loop ?words pn cs ov (0 + ?step) ([] @ window_chunk ?words pn cs 0)"
    using pos by (rule chunk_loop_step)
  also have "\<dots> = Some (([] @ window_chunk ?words pn cs 0) @
       concat (map (\<lambda>k. window_chunk ?words pn cs (0 + ?step + int k * ?step))
                 [0..<nat ((int (length ?words) - (0 + ?step) + ?step - 1) div ?step)]))"
    by (rule chunk_loop_windows_from [OF step])
  also have "concat (map (\<lambda>k. window_chunk ?words pn cs (0 + ?step + int k * ?step))
                 [0..<nat ((int (length ?words) - (0 + ?step) + ?step - 1) div ?step)]) = []"
  proof -
    have "window_chunk ?words pn cs (0 + ?step + int k * ?step) = []" for k
    proof (rule later_window_empty [OF assms(1) step _ assms(3)])
      have "0 \<le> int k * ?step" using step by simp
      then show "int (nat ?step) \<le> 0 + ?step + int k * ?step" using step by simp
    qed
    then show ?thesis by simp
  qed
  finally show ?thesis using window_chunk_whole_page [OF assms(1), of pn] by simp
qed

text \<open>
  Claim C2, as amended. Take a page anywhere in a document whose other pages are chunked
  (the call on the pages before it and the call on the pages after it return). If the page has
  at most \<open>chunk_size\<close> words, has no word or \<open>overlap < chunk_size\<close>, and its words from index
  \<open>chunk_size - overlap\<close> on, joined by single spaces, are at most 50 characters long (as they
  are when there is none), then the page yields exactly one chunk, whose text is the words of
  the page joined by single spaces, if that text is longer than 50 characters, and no chunk
  otherwise: the chunks of the document are those of the pages before, then that chunk if any,
  then those of the pages after.
\<close>

theorem chunk_text_with_pages_single_window:
  assumes "chunk_text_with_pages before chunk_size overlap = Some chunks_before"
      and "chunk_text_with_pages after chunk_size overlap = Some chunks_after"
      and "int (length (str_split (page_text p))) \<le> chunk_size"
      and "str_split (page_text p) = [] \<or> overlap < chunk_size"
      and "length (str_join (of_ascii '' '')
             (drop (nat (chunk_size - overlap)) (str_split (page_text p)))) \<le> 50"
  shows "chunk_text_with_pages (before @ p # after) chunk_size overlap =
     Some (chunks_before @
           (if 50 < length (str_join (of_ascii '' '') (str_split (page_text p)))
            then [\<lparr>page_text = str_join (of_ascii '' '') (str_split (page_text p)),
                   page_num = page_num p\<rparr>]
            else []) @
           chunks_after)"
proof -
  let ?part = "if 50 < length (str_join (of_ascii '' '') (str_split (page_text p)))
            then [\<lparr>page_text = str_join (of_ascii '' '') (str_split (page_text p)),
                   page_num = page_num p\<rparr>]
            else []"
  have b: "chunk_pages before chunk_size overlap [] = Some chunks_before"
    using assms(1) by (simp add: chunk_text_with_pages_def)
  have a: "chunk_pages after chunk_size overlap [] = Some chunks_after"
    using assms(2) by (simp add: chunk_text_with_pages_def)
  have "chunk_loop (str_split (page_text p)) (page_num p) chunk_size overlap 0 [] = Some ?part"
    by (rule chunk_loop_one_window [OF assms(3-5)])
  then have l: "chunk_loop (str_split (page_text p)) (page_num p) chunk_size overlap 0 chunks_before
                = Some (chunks_before @ ?part)"
    using chunk_loop_acc [of "str_split (page_text p)" "page_num p" chunk_size overlap 0 chunks_before]
    by simp
  have "chunk_pages after chunk_size overlap (chunks_before @ ?part) =
        Some ((chunks_before @ ?part) @ chunks_after)"
    using chunk_pages_acc [of after chunk_size overlap "chunks_before @ ?part"] a by simp
  then have "chunk_pages (p # after) chunk_size overlap chunks_before =
             Some (chunks_before @ ?part @ chunks_after)"
    using l by simp
  then show ?thesis
    using b by (simp add: chunk_text_with_pages_def chunk_pages_append)
qed

theorem chunk_text_with_pages_single_window_witness:
  "chunk_text_with_pages [\<lparr>page_text = of_ascii ''Contents'', page_num = 1\<rparr>] 3 1 = Some [] \<and>
   chunk_text_with_pages
     [\<lparr>page_text = of_ascii ''ccccccccccccccccccccccccccccccccccccccccccccccccccc'', page_num = 3\<rparr>]
     3 1 =
     Some [\<lparr>page_text = of_ascii ''ccccccccccccccccccccccccccccccccccccccccccccccccccc'',
            page_num = 3\<rparr>] \<and>
   chunk_text_with_pages
     [\<lparr>page_text = of_ascii ''Contents'', page_num = 1\<rparr>,
      \<lparr>page_text = of_ascii ''aaaaaaaaaaaaaaaaaaaaaaaaaaaaaa  bbbbbbbbbbbbbbbbbbbbbbbbbbbbbb cc'',
       page_num = 2\<rparr>,
      \<lparr>page_text = of_ascii ''ccccccccccccccccccccccccccccccccccccccccccccccccccc'', page_num = 3\<rparr>]
     3 1 =
     Some [\<lparr>page_text = of_ascii ''aaaaaaaaaaaaaaaaaaaaaaaaaaaaaa bbbbbbbbbbbbbbbbbbbbbbbbbbbbbb cc'',
            page_num = 2\<rparr>,
           \<lparr>page_text = of_ascii ''ccccccccccccccccccccccccccccccccccccccccccccccccccc'',
            page_num = 3\<rparr>]"
proof -
  let ?p1 = "\<lparr>page_text = of_ascii ''Contents'', page_num = 1\<rparr>"
  let ?p2 = "\<lparr>page_text = of_ascii ''aaaaaaaaaaaaaaaaaaaaaaaaaaaaaa  bbbbbbbbbbbbbbbbbbbbbbbbbbbbbb cc'',
              page_num = 2\<rparr>"
  let ?p3 = "\<lparr>page_text = of_ascii ''ccccccccccccccccccccccccccccccccccccccccccccccccccc'',
              page_num = 3\<rparr>"
  have w: "str_split (page_text ?p2) =
     [of_ascii ''aaaaaaaaaaaaaaaaaaaaaaaaaaaaaa'', of_ascii ''bbbbbbbbbbbbbbbbbbbbbbbbbbbbbb'',
      of_ascii ''cc'']"
    by (simp add: str_split_def of_ascii_def isspace_def)
  have h1: "chunk_text_with_pages [?p1] 3 1 = Some []"
    by (simp add: chunk_text_with_pages_def str_split_def of_ascii_def isspace_def
          chunk_loop.simps py_slice_def clamp_index_def str_strip_def)
  have h2: "chunk_text_with_pages [?p3] 3 1 = Some [?p3]"
    by (simp add: chunk_text_with_pages_def str_split_def of_ascii_def isspace_def
          chunk_loop.simps py_slice_def clamp_index_def str_strip_def)
  have h3: "int (length (str_split (page_text ?p2))) \<le> 3"
    unfolding w by simp
  have h4: "str_split (page_text ?p2) = [] \<or> (1::int) < 3" by simp
  have h5: "length (str_join (of_ascii '' '') (drop (nat (3 - 1)) (str_split (page_text ?p2)))) \<le> 50"
    unfolding w by (simp add: of_ascii_def)
  have j: "str_join (of_ascii '' '') (str_split (page_text ?p2)) =
           of_ascii ''aaaaaaaaaaaaaaaaaaaaaaaaaaaaaa bbbbbbbbbbbbbbbbbbbbbbbbbbbbbb cc''"
    unfolding w by (simp add: of_ascii_def)
  have "chunk_text_with_pages ([?p1] @ ?p2 # [?p3]) 3 1 =
     Some ([] @
           (if 50 < length (str_join (of_ascii '' '') (str_split (page_text ?p2)))
            then [\<lparr>page_text = str_join (of_ascii '' '') (str_split (page_text ?p2)),
                   page_num = page_num ?p2\<rparr>]
            else []) @
           [?p3])"
    by (rule chunk_text_with_pages_single_window [OF h1 h2 h3 h4 h5])
  also have "\<dots> = Some [\<lparr>page_text =
        of_ascii ''aaaaaaaaaaaaaaaaaaaaaaaaaaaaaa bbbbbbbbbbbbbbbbbbbbbbbbbbbbbb cc'', page_num = 2\<rparr>, ?p3]"
    unfolding j by (simp add: of_ascii_def)
  finally show ?thesis using h1 h2 by simp
qed

text \<open>
  The hypothesis on the later words cannot be dropped: when the words from index
  \<open>chunk_size - overlap\<close> on are longer than 50 characters, the page yields a second chunk.
\<close>

lemma chunk_text_with_pages_second_window:
  assumes "int (length (str_split (page_text p))) \<le> chunk_size"
      and "overlap < chunk_size"
      and "50 < length (str_join (of_ascii '' '')
             (drop (nat (chunk_size - overlap)) (str_split (page_text p))))"
  shows "\<exists>rest. chunk_text_with_pages [p] chunk_size overlap =
     Some (\<lparr>page_text = str_join (of_ascii '' '') (str_split (page_text p)),
            page_num = page_num p\<rparr> #
           \<lparr>page_text = str_join (of_ascii '' '')
                          (drop (nat (chunk_size - overlap)) (str_split (page_text p))),
            page_num = page_num p\<rparr> # rest)"
proof -
  let ?words = "str_split (page_text p)" and ?step = "chunk_size - overlap"
  let ?sp = "of_ascii '' ''"
  let ?c0 = "\<lparr>page_text = str_join ?sp ?words, page_num = page_num p\<rparr>"
  let ?c1 = "\<lparr>page_text = str_join ?sp (drop (nat ?step) ?words), page_num = page_num p\<rparr>"
  have step: "0 < ?step" using assms(2) by simp
  have ne: "drop (nat ?step) ?words \<noteq> []" using assms(3) by auto
  then have lt: "?step < int (length ?words)" by simp
  then have pos: "0 < int (length ?words)" using step by linarith
  have "50 < length (str_join ?sp ?words)"
    using assms(3) length_str_join_drop [of ?sp "nat ?step" ?words] by simp
  then have w0: "window_chunk ?words (page_num p) chunk_size 0 = [?c0]"
    using window_chunk_whole_page [OF assms(1), of "page_num p"] by simp
  have "int (length ?words) \<le> ?step + chunk_size" using assms(1) step by simp
  then have sl: "py_slice ?words ?step (?step + chunk_size) = drop (nat ?step) ?words"
    using step by (intro py_slice_suffix) simp_all
  have "\<forall>w\<in>set (drop (nat ?step) ?words). w \<noteq> [] \<and> (\<forall>c\<in>set w. \<not> isspace c)"
    using str_split_words by (meson in_set_dropD)
  then have "str_strip (str_join ?sp (drop (nat ?step) ?words)) =
             str_join ?sp (drop (nat ?step) ?words)"
    by (rule str_strip_join_words)
  then have w1: "window_chunk ?words (page_num p) chunk_size ?step = [?c1]"
    using assms(3) sl by (simp add: window_chunk_def Let_def)
  have "chunk_loop ?words (page_num p) chunk_size overlap 0 [] =
        chunk_loop ?words (page_num p) chunk_size overlap (0 + ?step)
          ([] @ window_chunk ?words (page_num p) chunk_size 0)"
    using pos by (rule chunk_loop_step)
  also have "\<dots> = chunk_loop ?words (page_num p) chunk_size overlap ?step [?c0]"
    using w0 by simp
  also have "\<dots> = chunk_loop ?words (page_num p) chunk_size overlap (?step + ?step)
                     ([?c0] @ window_chunk ?words (page_num p) chunk_size ?step)"
    using lt by (rule chunk_loop_step)
  also have "\<dots> = chunk_loop ?words (page_num p) chunk_size overlap (?step + ?step) [?c0, ?c1]"
    using w1 by simp
  also have "\<dots> = map_option ((@) [?c0, ?c1])
                     (chunk_loop ?words (page_num p) chunk_size overlap (?step + ?step) [])"
    by (rule chunk_loop_acc)
  finally have e: "chunk_loop ?words (page_num p) chunk_size overlap 0 [] =
       map_option ((@) [?c0, ?c1])
         (chunk_loop ?words (page_num p) chunk_size overlap (?step + ?step) [])" .
  obtain r where "chunk_loop ?words (page_num p) chunk_size overlap (?step + ?step) [] = Some r"
    using chunk_loop_windows_from [OF step, of ?words "page_num p" "?step + ?step" "[]"] by blast
  then show ?thesis using e by (simp add: chunk_text_with_pages_def)
qed

text \<open>
  The claim as stated fails three times. With the default \<open>chunk_size = 600\<close> and
  \<open>overlap = 100\<close>, a page of two words separated by two spaces gives one chunk, whose text has a
  single space between the words and so is not the trimmed page text. With \<open>chunk_size = 3\<close>
  and \<open>overlap = 1\<close>, a page of three words, within one window, gives two chunks: the second
  window starts at the third word, which is longer than 50 characters. With
  \<open>chunk_size = overlap = 100\<close> a page of one word gives no result at all: the call never returns.
\<close>

theorem chunk_text_with_pages_single_window_counterexample:
  "int (length (str_split (of_ascii ''aaaaaaaaaaaaaaaaaaaaaaaaaaaaaa  bbbbbbbbbbbbbbbbbbbbbbbbbbbbbb''))) \<le> 600 \<and>
   50 < length (str_strip (of_ascii ''aaaaaaaaaaaaaaaaaaaaaaaaaaaaaa  bbbbbbbbbbbbbbbbbbbbbbbbbbbbbb'')) \<and>
   chunk_text_with_pages [\<lparr>page_text = of_ascii ''aaaaaaaaaaaaaaaaaaaaaaaaaaaaaa  bbbbbbbbbbbbbbbbbbbbbbbbbbbbbb'', page_num = 1\<rparr>] 600 100 =
     Some [\<lparr>page_text = of_ascii ''aaaaaaaaaaaaaaaaaaaaaaaaaaaaaa bbbbbbbbbbbbbbbbbbbbbbbbbbbbbb'', page_num = 1\<rparr>] \<and>
   chunk_text_with_pages [\<lparr>page_text = of_ascii ''aaaaaaaaaaaaaaaaaaaaaaaaaaaaaa  bbbbbbbbbbbbbbbbbbbbbbbbbbbbbb'', page_num = 1\<rparr>] 600 100 \<noteq>
     Some [\<lparr>page_text = str_strip (of_ascii ''aaaaaaaaaaaaaaaaaaaaaaaaaaaaaa  bbbbbbbbbbbbbbbbbbbbbbbbbbbbbb''), page_num = 1\<rparr>] \<and>
   int (length (str_split (of_ascii ''a b ccccccccccccccccccccccccccccccccccccccccccccccccccc''))) \<le> 3 \<and>
   chunk_text_with_pages [\<lparr>page_text = of_ascii ''a b ccccccccccccccccccccccccccccccccccccccccccccccccccc'', page_num = 1\<rparr>] 3 1 =
     Some [\<lparr>page_text = of_ascii ''a b ccccccccccccccccccccccccccccccccccccccccccccccccccc'', page_num = 1\<rparr>,
           \<lparr>page_text = of_ascii ''ccccccccccccccccccccccccccccccccccccccccccccccccccc'', page_num = 1\<rparr>] \<and>
   int (length (str_split (of_ascii ''word''))) \<le> 100 \<and>
   chunk_text_with_pages [\<lparr>page_text = of_ascii ''word'', page_num = 1\<rparr>] 100 100 = None"
proof -
  have a: "int (length (str_split (of_ascii ''aaaaaaaaaaaaaaaaaaaaaaaaaaaaaa  bbbbbbbbbbbbbbbbbbbbbbbbbbbbbb''))) \<le> 600 \<and>
   50 < length (str_strip (of_ascii ''aaaaaaaaaaaaaaaaaaaaaaaaaaaaaa  bbbbbbbbbbbbbbbbbbbbbbbbbbbbbb'')) \<and>
   chunk_text_with_pages [\<lparr>page_text = of_ascii ''aaaaaaaaaaaaaaaaaaaaaaaaaaaaaa  bbbbbbbbbbbbbbbbbbbbbbbbbbbbbb'', page_num = 1\<rparr>] 600 100 =
     Some [\<lparr>page_text = of_ascii ''aaaaaaaaaaaaaaaaaaaaaaaaaaaaaa bbbbbbbbbbbbbbbbbbbbbbbbbbbbbb'', page_num = 1\<rparr>] \<and>
   chunk_text_with_pages [\<lparr>page_text = of_ascii ''aaaaaaaaaaaaaaaaaaaaaaaaaaaaaa  bbbbbbbbbbbbbbbbbbbbbbbbbbbbbb'', page_num = 1\<rparr>] 600 100 \<noteq>
     Some [\<lparr>page_text = str_strip (of_ascii ''aaaaaaaaaaaaaaaaaaaaaaaaaaaaaa  bbbbbbbbbbbbbbbbbbbbbbbbbbbbbb''), page_num = 1\<rparr>] \<and>
   int (length (str_split (of_ascii ''a b ccccccccccccccccccccccccccccccccccccccccccccccccccc''))) \<le> 3 \<and>
   chunk_text_with_pages [\<lparr>page_text = of_ascii ''a b ccccccccccccccccccccccccccccccccccccccccccccccccccc'', page_num = 1\<rparr>] 3 1 =
     Some [\<lparr>page_text = of_ascii ''a b ccccccccccccccccccccccccccccccccccccccccccccccccccc'', page_num = 1\<rparr>,
           \<lparr>page_text = of_ascii ''ccccccccccccccccccccccccccccccccccccccccccccccccccc'', page_num = 1\<rparr>]"
    by (simp add: chunk_text_with_pages_def str_split_def of_ascii_def isspace_def
        chunk_loop.simps py_slice_def clamp_index_def str_strip_def)
  have w: "str_split (of_ascii ''word'') = [of_ascii ''word'']"
    by (simp add: str_split_def of_ascii_def isspace_def)
  have b: "int (length (str_split (of_ascii ''word''))) \<le> 100"
    unfolding w by simp
  have c: "chunk_text_with_pages [\<lparr>page_text = of_ascii ''word'', page_num = 1\<rparr>] 100 100 = None"
    by (rule chunk_text_with_pages_diverges) (simp_all add: w)
  show ?thesis using a b c by blast
qed

subsection \<open>Claim C3\<close>

text \<open>
  Claim C3 fails on the code: with \<open>overlap = chunk_size = 100\<close> and a page of one word the
  call is not rejected and never returns (\<open>None\<close> is the loop that does not end). This is the
  instance of \<open>chunk_text_with_pages_diverges\<close> at that input; the other half of the claim,
  termination for \<open>overlap < chunk_size\<close>, is \<open>chunk_text_with_pages_terminates\<close>.
\<close>

theorem chunk_text_with_pages_overlap_eq_size_never_returns:
  "chunk_text_with_pages [\<lparr>page_text = of_ascii ''word'', page_num = 1\<rparr>] 100 100 = None"
proof -
  have "str_split (of_ascii ''word'') \<noteq> []"
    by (simp add: str_split_def of_ascii_def isspace_def)
  then show ?thesis by (intro chunk_text_with_pages_diverges) simp_all
qed

section \<open>Properties of the embedding generator\<close>

subsection \<open>The fallback vector\<close>

lemma length_hexdigest: "length (hexdigest d) = 64"
  by (simp add: hexdigest_def)

lemma nth_hexdigest: "k < 64 \<Longrightarrow> hexdigest d ! k = hex_char (digest_digit d k)"
  by (simp add: hexdigest_def)

lemma digest_digit_less: "digest_digit d k < 16"
  by (simp add: digest_digit_def)

lemma hex_value_hex_char: "v < 16 \<Longrightarrow> hex_value (hex_char v) = Some v"
  by (auto simp: hex_value_def hex_char_def)

lemma py_slice_two:
  assumes "k + 1 < length xs"
  shows "py_slice xs (int k) (int k + 2) = [xs ! k, xs ! (k + 1)]"
proof -
  have "drop k xs = xs ! k # xs ! (k + 1) # drop (k + 2) xs"
    using assms by (simp add: Cons_nth_drop_Suc)
  moreover have "clamp_index (length xs) (int k) = k"
    using assms by (simp add: clamp_index_def)
  moreover have "clamp_index (length xs) (int k + 2) = k + 2"
    using assms by (simp add: clamp_index_def nat_add_distrib)
  ultimately show ?thesis by (simp add: py_slice_def)
qed

lemma py_slice_last:
  assumes "k + 1 = length xs"
  shows "py_slice xs (int k) (int k + 2) = [xs ! k]"
proof -
  have "drop k xs = [xs ! k]"
    using assms by (metis Cons_nth_drop_Suc Suc_eq_plus1 drop_all lessI order_refl)
  moreover have "clamp_index (length xs) (int k) = k"
    using assms by (simp add: clamp_index_def)
  moreover have "clamp_index (length xs) (int k + 2) = k + 1"
    using assms by (simp add: clamp_index_def nat_add_distrib)
  ultimately show ?thesis by (simp add: py_slice_def)
qed

lemma int16_two: "a < 16 \<Longrightarrow> b < 16 \<Longrightarrow> int16 [hex_char a, hex_char b] = Inr (int (16 * a + b))"
  by (simp add: int16_def hex_value_hex_char)

lemma int16_one: "a < 16 \<Longrightarrow> int16 [hex_char a] = Inr (int a)"
  by (simp add: int16_def hex_value_hex_char)

lemma int16_slice_hexdigest:
  "int16 (py_slice (hexdigest d) (int (i mod 64)) (int (i mod 64) + 2)) = Inr (code_byte d i)"
proof (cases "i mod 64 < 63")
  case True
  then have "py_slice (hexdigest d) (int (i mod 64)) (int (i mod 64) + 2) =
             [hex_char (digest_digit d (i mod 64)), hex_char (digest_digit d (i mod 64 + 1))]"
    by (simp add: py_slice_two length_hexdigest nth_hexdigest)
  then show ?thesis using True by (simp add: int16_two digest_digit_less code_byte_def)
next
  case False
  then have e: "i mod 64 = 63" using mod_less_divisor [of 64 i] by linarith
  have "py_slice (hexdigest d) (int 63) (int 63 + 2) = [hexdigest d ! 63]"
    by (rule py_slice_last) (simp add: length_hexdigest)
  then have "py_slice (hexdigest d) (int (i mod 64)) (int (i mod 64) + 2) =
             [hex_char (digest_digit d 63)]"
    by (simp only: e nth_hexdigest [of 63, simplified])
  then show ?thesis using e by (simp add: int16_one digest_digit_less code_byte_def)
qed

lemma fallback_loop_hexdigest:
  "fallback_loop (hexdigest d) idxs embedding =
   Inr (embedding @ map (\<lambda>i. component_of (code_byte d i)) idxs)"
proof (induction idxs arbitrary: embedding)
  case Nil
  show ?case by simp
next
  case (Cons i rest)
  show ?case
    by (simp add: length_hexdigest int16_slice_hexdigest Cons.IH component_of_def Let_def)
qed


lemma str_encode_surrogate:
  "\<exists>c\<in>set text. 0xD800 \<le> c \<and> c \<le> 0xDFFF \<Longrightarrow> str_encode text = Inl UnicodeEncodeError"
proof (induction "text")
  case Nil
  then show ?case by simp
next
  case (Cons c cs)
  show ?case
  proof (cases "0xD800 \<le> c \<and> c \<le> 0xDFFF")
    case True
    then show ?thesis by (simp add: utf8_char_def)
  next
    case False
    then have "str_encode cs = Inl UnicodeEncodeError" using Cons by auto
    then show ?thesis using False by (auto simp: utf8_char_def)
  qed
qed

lemma fallback_embedding_eq:
  "str_encode text = Inr encoded \<Longrightarrow>
   fallback_embedding sha256 text =
   Inr (map (\<lambda>i. component_of (code_byte (sha256 encoded) i)) [0..<1024])"
  by (simp add: fallback_embedding_def fallback_loop_hexdigest)

lemma fallback_embedding_unencodable:
  "str_encode text = Inl e \<Longrightarrow> fallback_embedding sha256 text = Inl e"
  by (simp add: fallback_embedding_def)

lemma code_byte_range: "0 \<le> code_byte d i \<and> code_byte d i \<le> 255"
proof -
  have "digest_digit d (i mod 64) \<le> 15" "digest_digit d (i mod 64 + 1) \<le> 15" "digest_digit d 63 \<le> 15"
    using digest_digit_less [of d "i mod 64"] digest_digit_less [of d "i mod 64 + 1"]
      digest_digit_less [of d 63] by linarith+
  then show ?thesis by (simp add: code_byte_def)
qed

lemma component_of_range:
  assumes "0 \<le> b" "b \<le> 255"
  shows "- 0.99 \<le> component_of b \<and> component_of b \<le> 1.01"
proof -
  have "0 \<le> real_of_int b / 255" using assms by simp
  moreover have "real_of_int b / 255 \<le> 1" using assms by simp
  ultimately show ?thesis by (simp add: component_of_def)
qed

lemma call_eq:
  "call ev f s = (fst (f (world s)), \<lparr>world = snd (f (world s)), trace = trace s @ [ev]\<rparr>)"
  by (simp add: call_def split: prod.split)


lemma fallback_embedding_length: "fallback_embedding sha256 text = Inr v \<Longrightarrow> length v = 1024"
  by (cases "str_encode text") (auto simp: fallback_embedding_eq fallback_embedding_unencodable)


lemma generate_embedding_failure:
  assumes "fst (ollama_embeddings svc (of_ascii ''nomic-embed-text'') text (world s)) = Inl e"
  shows "fst (generate_embedding svc sha256 text s) = fallback_embedding sha256 text"
  using assms by (simp add: generate_embedding_def call_eq Let_def split: sum.split)


text \<open>
  The condition on the text cannot be dropped: with a lone surrogate in the text and the
  embedding call failing, \<^verbatim>\<open>text.encode()\<close> raises in the \<^verbatim>\<open>except\<close> block.
\<close>

lemma generate_embedding_unencodable:
  assumes "fst (ollama_embeddings svc (of_ascii ''nomic-embed-text'') text (world s)) = Inl e"
      and "\<exists>c\<in>set text. 0xD800 \<le> c \<and> c \<le> 0xDFFF"
  shows "fst (generate_embedding svc sha256 text s) = Inl UnicodeEncodeError"
proof -
  have "fallback_embedding sha256 text = Inl UnicodeEncodeError"
    using assms(2) str_encode_surrogate fallback_embedding_unencodable by blast
  then show ?thesis
    using generate_embedding_failure [OF assms(1), of sha256] by simp
qed

subsection \<open>Claim C1\<close>




subsection \<open>Claim C8\<close>




subsection \<open>Claim C9\<close>

text \<open>
  Component \<open>i\<close> of the fallback is the normalised number read at index \<open>i\<close>; it lies between
  \<open>-0.99\<close> and \<open>1.01\<close>. At the indices with \<open>i mod 64 < 63\<close> the number is the byte of two
  digits that the specification describes; at \<open>i mod 64 = 63\<close> it is the last digit alone, where
  the specification's byte takes the first digit of the digest as second digit.
\<close>

lemma fallback_component:
  assumes "str_encode text = Inr encoded" "fallback_embedding sha256 text = Inr v" "i < 1024"
  shows "v ! i = component_of (code_byte (sha256 encoded) i)"
  using assms by (auto simp: fallback_embedding_eq)

lemma code_byte_two_digits: "i mod 64 < 63 \<Longrightarrow> code_byte d i = spec_byte d i"
  by (simp add: code_byte_def spec_byte_def mod_Suc)

lemma code_byte_one_digit: "i mod 64 = 63 \<Longrightarrow> code_byte d i = int (digest_digit d 63)"
  by (simp add: code_byte_def)

lemma spec_byte_wraps:
  "i mod 64 = 63 \<Longrightarrow> spec_byte d i = int (16 * digest_digit d 63 + digest_digit d 0)"
  by (simp add: spec_byte_def mod_Suc)

lemma fallback_component_range:
  assumes "fallback_embedding sha256 text = Inr v" "i < 1024"
  shows "- 0.99 \<le> v ! i \<and> v ! i \<le> 1.01"
proof (cases "str_encode text")
  case (Inl e)
  then show ?thesis using assms(1) by (simp add: fallback_embedding_unencodable)
next
  case (Inr encoded)
  show ?thesis
    using fallback_component [OF Inr assms] component_of_range code_byte_range by simp
qed

text \<open>The digest of the empty text, \<^verbatim>\<open>e3b0c442...7852b855\<close>: its last digit is 5, its first 14.\<close>

lemma digest_digit_empty_text_63: "digest_digit 0xe3b0c44298fc1c149afbf4c8996fb92427ae41e4649b934ca495991b7852b855 63 = 5"
  by (simp add: digest_digit_def)

lemma digest_digit_empty_text_0: "digest_digit 0xe3b0c44298fc1c149afbf4c8996fb92427ae41e4649b934ca495991b7852b855 0 = 14"
  by (simp add: digest_digit_def)

text \<open>
  Claim C9 fails on the code: for the empty text, whose digest ends in \<open>5\<close> and begins with
  \<open>e\<close>, component 63 is computed from the single digit \<open>5\<close>, not from two digits (the byte
  \<open>5e\<close>, 94, of the claim): the slice \<^verbatim>\<open>text_hash[63:65]\<close> is cut at the end of the digest.
\<close>

theorem fallback_component_63_reads_one_digit:
  "(case fallback_embedding
           (\<lambda>text. 0xe3b0c44298fc1c149afbf4c8996fb92427ae41e4649b934ca495991b7852b855) []
    of Inl e \<Rightarrow> None | Inr v \<Rightarrow> Some (v ! 63)) = Some (component_of 5) \<and>
   spec_byte 0xe3b0c44298fc1c149afbf4c8996fb92427ae41e4649b934ca495991b7852b855 63 = 94 \<and>
   component_of 5 \<noteq> component_of 94"
proof -
  let ?d = "0xe3b0c44298fc1c149afbf4c8996fb92427ae41e4649b934ca495991b7852b855 :: 256 word"
  have a: "code_byte ?d 63 = 5" by (simp add: code_byte_def digest_digit_empty_text_63)
  have b: "spec_byte ?d 63 = 94" by (simp add: spec_byte_def digest_digit_empty_text_63 digest_digit_empty_text_0)
  have c: "component_of 5 \<noteq> component_of 94" by (simp add: component_of_def)
  have "(63::nat) < 1024" by simp
  then have "map (\<lambda>i. component_of (code_byte ?d i)) [0..<1024] ! 63 = component_of (code_byte ?d 63)"
    by (simp only: nth_map_upt) simp
  moreover have "str_encode [] = Inr []" by simp
  ultimately show ?thesis
    using a b c by (simp add: fallback_embedding_eq [of "[]" "[]"] del: upt_Suc)
qed

section \<open>Properties of the entity extractor\<close>

subsection \<open>Finding the braces\<close>

lemma index_of_None: "index_of c s = None \<longleftrightarrow> c \<notin> set s"
  by (induction s) auto

lemma index_of_take: "index_of c s = Some m \<Longrightarrow> c \<in> set (take n s) \<longleftrightarrow> m < n"
proof (induction s arbitrary: m n)
  case Nil
  then show ?case by simp
next
  case (Cons x xs)
  show ?case
  proof (cases n)
    case 0
    then show ?thesis by simp
  next
    case (Suc n')
    show ?thesis
    proof (cases "x = c")
      case True
      then show ?thesis using Cons.prems Suc by simp
    next
      case False
      then obtain m' where m': "index_of c xs = Some m'" "m = Suc m'"
        using Cons.prems by auto
      then show ?thesis using Cons.IH [OF m'(1), of n'] False Suc by simp
    qed
  qed
qed

lemma index_of_less: "index_of c s = Some m \<Longrightarrow> m < length s"
  using index_of_take [of c s m "length s"] index_of_None [of c s] by auto

lemma str_find_none: "c \<notin> set s \<Longrightarrow> str_find s c = - 1"
  by (simp add: str_find_def index_of_None [THEN iffD2])

lemma str_rfind_none: "c \<notin> set s \<Longrightarrow> str_rfind s c = - 1"
  by (simp add: str_rfind_def index_of_None [THEN iffD2])

lemma str_find_prefix: "c \<notin> set pre \<Longrightarrow> str_find (pre @ c # post) c = int (length pre)"
proof -
  assume "c \<notin> set pre"
  then have "index_of c (pre @ c # post) = Some (length pre)"
    by (induction pre) auto
  then show ?thesis by (simp add: str_find_def)
qed

lemma str_rfind_ge: "int k \<le> str_rfind s c \<longleftrightarrow> c \<in> set (drop k s)"
proof (cases "index_of c (rev s)")
  case None
  then have "c \<notin> set s" by (simp add: index_of_None)
  then have "c \<notin> set (drop k s)" by (meson in_set_dropD)
  then show ?thesis using None by (simp add: str_rfind_def)
next
  case (Some m)
  have m: "m < length s" using index_of_less [OF Some] by simp
  have "c \<in> set (drop k s) \<longleftrightarrow> c \<in> set (rev (drop k s))" by simp
  also have "\<dots> \<longleftrightarrow> c \<in> set (take (length s - k) (rev s))" by (simp add: rev_drop)
  also have "\<dots> \<longleftrightarrow> m < length s - k" by (rule index_of_take [OF Some])
  also have "\<dots> \<longleftrightarrow> int k \<le> str_rfind s c" using Some m by (auto simp: str_rfind_def)
  finally show ?thesis by simp
qed

lemma braced_iff:
  "0 \<le> str_find content 123 \<and> str_find content 123 < str_rfind content 125 + 1 \<longleftrightarrow> braced content"
proof (cases "123 \<in> set content")
  case False
  then have dw0: "dropWhile (\<lambda>c. c \<noteq> 123) content = []"
    by (auto simp: dropWhile_eq_Nil_conv)
  have "str_find content 123 = - 1" using False by (rule str_find_none)
  then show ?thesis unfolding braced_def dw0 by simp
next
  case True
  define pre where "pre = takeWhile (\<lambda>c. c \<noteq> 123) content"
  define post where "post = tl (dropWhile (\<lambda>c. c \<noteq> 123) content)"
  have dw: "dropWhile (\<lambda>c. c \<noteq> 123) content = 123 # post"
    using True unfolding post_def
    by (metis (mono_tags, lifting) dropWhile_eq_Nil_conv hd_dropWhile list.collapse)
  have split: "content = pre @ 123 # post"
    unfolding pre_def using dw by (metis takeWhile_dropWhile_id)
  have pre: "123 \<notin> set pre" unfolding pre_def by (auto dest: set_takeWhileD)
  have f: "str_find content 123 = int (length pre)"
    using str_find_prefix [OF pre, of post] split by simp
  have "drop (length pre) content = 123 # post" using split by simp
  then have "int (length pre) \<le> str_rfind content 125 \<longleftrightarrow> 125 \<in> set (123 # post)"
    using str_rfind_ge [of "length pre" content 125] by simp
  then show ?thesis using f dw by (auto simp: braced_def)
qed

subsection \<open>Claim C4\<close>

lemma extract_entities_with_llm_Inr:
  "\<exists>result. fst (extract_entities_with_llm svc json_loads text s) = Inr result"
  by (simp add: extract_entities_with_llm_def split: prod.split sum.split)

lemma extract_chat_error:
  assumes "fst (ollama_chat svc (of_ascii ''gemma:2b'') (extraction_prompt text) (world s)) = Inl e"
  shows "fst (extract_entities_with_llm svc json_loads text s) = Inr EMPTY_EXTRACTION"
  using assms by (simp add: extract_entities_with_llm_def extract_entities_try_def call_eq)

lemma extract_not_braced:
  assumes "fst (ollama_chat svc (of_ascii ''gemma:2b'') (extraction_prompt text) (world s)) = Inr content"
      and "\<not> braced content"
  shows "fst (extract_entities_with_llm svc json_loads text s) = Inr EMPTY_EXTRACTION"
proof -
  have "\<not> (0 \<le> str_find content 123 \<and> str_find content 123 < str_rfind content 125 + 1)"
    using assms(2) braced_iff by blast
  then show ?thesis
    using assms(1)
    by (auto simp: extract_entities_with_llm_def extract_entities_try_def call_eq Let_def)
qed

lemma extract_parse_error:
  assumes "fst (ollama_chat svc (of_ascii ''gemma:2b'') (extraction_prompt text) (world s)) = Inr content"
      and "json_loads (py_slice content (str_find content 123) (str_rfind content 125 + 1)) = Inl e"
  shows "fst (extract_entities_with_llm svc json_loads text s) = Inr EMPTY_EXTRACTION"
  using assms
  by (simp add: extract_entities_with_llm_def extract_entities_try_def call_eq Let_def)

text \<open>
  Claim C4. \<^verbatim>\<open>extract_entities_with_llm\<close> never raises to its caller: it always returns a
  result. When the model call raises, when the response holds no substring delimited by
  braces, and when parsing the substring from the first \<^verbatim>\<open>{\<close> to the last \<^verbatim>\<open>}\<close> raises, the
  result is the empty one, \<^verbatim>\<open>{"entities": [], "relationships": []}\<close>.
\<close>

theorem extract_entities_with_llm_never_raises:
  "(\<exists>result. fst (extract_entities_with_llm svc json_loads text s) = Inr result) \<and>
   (\<forall>e. fst (ollama_chat svc (of_ascii ''gemma:2b'') (extraction_prompt text) (world s)) = Inl e
      \<longrightarrow> fst (extract_entities_with_llm svc json_loads text s) = Inr EMPTY_EXTRACTION) \<and>
   (\<forall>content.
      fst (ollama_chat svc (of_ascii ''gemma:2b'') (extraction_prompt text) (world s)) = Inr content
      \<longrightarrow> (\<not> braced content
             \<longrightarrow> fst (extract_entities_with_llm svc json_loads text s) = Inr EMPTY_EXTRACTION) \<and>
          (\<forall>e. json_loads (py_slice content (str_find content 123) (str_rfind content 125 + 1))
                 = Inl e
             \<longrightarrow> fst (extract_entities_with_llm svc json_loads text s) = Inr EMPTY_EXTRACTION))"
  using extract_entities_with_llm_Inr extract_chat_error extract_not_braced extract_parse_error
  by blast

text \<open>
  Runs with a model that is offline, with a response without braces, and with a response in
  braces that does not parse.
\<close>

theorem extract_entities_with_llm_never_raises_witness:
  "fst (ollama_chat offline (of_ascii ''gemma:2b'') (extraction_prompt (of_ascii ''wheat rust''))
          (world start)) = Inl (ClientError (of_ascii ''offline'')) \<and>
   fst (extract_entities_with_llm offline (\<lambda>j. Inl JSONDecodeError) (of_ascii ''wheat rust'') start)
     = Inr EMPTY_EXTRACTION \<and>
   fst (ollama_chat (offline\<lparr>ollama_chat := \<lambda>model prompt w. (Inr (of_ascii ''no json here''), w)\<rparr>)
          (of_ascii ''gemma:2b'') (extraction_prompt (of_ascii ''wheat rust'')) (world start))
     = Inr (of_ascii ''no json here'') \<and>
   \<not> braced (of_ascii ''no json here'') \<and>
   fst (extract_entities_with_llm
          (offline\<lparr>ollama_chat := \<lambda>model prompt w. (Inr (of_ascii ''no json here''), w)\<rparr>)
          (\<lambda>j. Inl JSONDecodeError) (of_ascii ''wheat rust'') start) = Inr EMPTY_EXTRACTION \<and>
   fst (ollama_chat (offline\<lparr>ollama_chat := \<lambda>model prompt w. (Inr (of_ascii ''{oops}''), w)\<rparr>)
          (of_ascii ''gemma:2b'') (extraction_prompt (of_ascii ''wheat rust'')) (world start))
     = Inr (of_ascii ''{oops}'') \<and>
   fst (extract_entities_with_llm
          (offline\<lparr>ollama_chat := \<lambda>model prompt w. (Inr (of_ascii ''{oops}''), w)\<rparr>)
          (\<lambda>j. Inl JSONDecodeError) (of_ascii ''wheat rust'') start) = Inr EMPTY_EXTRACTION"
proof -
  let ?t = "of_ascii ''wheat rust''"
  let ?jl = "\<lambda>j::pystr. (Inl JSONDecodeError :: py_error + json)"
  let ?a = "offline\<lparr>ollama_chat := \<lambda>model prompt w. (Inr (of_ascii ''no json here''), w)\<rparr>"
  let ?b = "offline\<lparr>ollama_chat := \<lambda>model prompt w. (Inr (of_ascii ''{oops}''), w)\<rparr>"
  have h0: "fst (ollama_chat offline (of_ascii ''gemma:2b'') (extraction_prompt ?t) (world start))
              = Inl (ClientError (of_ascii ''offline''))"
    by (simp add: offline_def)
  have ha: "fst (ollama_chat ?a (of_ascii ''gemma:2b'') (extraction_prompt ?t) (world start))
              = Inr (of_ascii ''no json here'')"
    by simp
  have nb: "\<not> braced (of_ascii ''no json here'')"
    by (simp add: braced_def of_ascii_def)
  have hb: "fst (ollama_chat ?b (of_ascii ''gemma:2b'') (extraction_prompt ?t) (world start))
              = Inr (of_ascii ''{oops}'')"
    by simp
  have r0: "fst (extract_entities_with_llm offline ?jl ?t start) = Inr EMPTY_EXTRACTION"
    using extract_entities_with_llm_never_raises [of offline ?jl ?t start] h0 by blast
  have ra: "fst (extract_entities_with_llm ?a ?jl ?t start) = Inr EMPTY_EXTRACTION"
    using extract_entities_with_llm_never_raises [of ?a ?jl ?t start] ha nb by blast
  have rb: "fst (extract_entities_with_llm ?b ?jl ?t start) = Inr EMPTY_EXTRACTION"
    using extract_entities_with_llm_never_raises [of ?b ?jl ?t start] hb by blast
  show ?thesis using h0 ha nb hb r0 ra rb by (intro conjI)
qed

section \<open>Properties of the graph store writer\<close>

subsection \<open>The labels\<close>

lemma set_str_strip: "set (str_strip s) \<subseteq> set s"
proof -
  have "set (str_strip s) \<subseteq> set (rev (dropWhile isspace s))"
    unfolding str_strip_def by (auto dest: set_dropWhileD)
  also have "\<dots> \<subseteq> set s" by (auto dest: set_dropWhileD)
  finally show ?thesis .
qed

lemma first_field_no_sep: "sep \<notin> set (first_field sep s)"
  by (induction s) auto

lemma isalpha_E: "isalpha alpha_tbl 69"
  by (simp add: isalpha_def)

lemma Entity_literal: "of_ascii ''Entity'' = [69, 110, 116, 105, 116, 121]"
  by (simp add: of_ascii_def)

lemma entity_label_cases:
  "entity_label alpha_tbl t = of_ascii ''Entity'' \<or>
   (\<exists>x. t = Some x \<and> 124 \<notin> set x \<and> entity_label alpha_tbl t = x \<and> x \<noteq> [] \<and> isalpha alpha_tbl (hd x)) \<or>
   (\<exists>x. t = Some x \<and> 124 \<in> set x \<and> entity_label alpha_tbl t = str_strip (first_field 124 x)
        \<and> str_strip (first_field 124 x) \<noteq> [] \<and> isalpha alpha_tbl (hd (str_strip (first_field 124 x))))"
proof (cases t)
  case None
  then show ?thesis by (simp add: entity_label_def Entity_literal isalpha_E)
next
  case (Some x)
  show ?thesis
  proof (cases "124 \<in> set x")
    case True
    then show ?thesis using Some
      by (cases "str_strip (first_field 124 x)") (auto simp: entity_label_def)
  next
    case False
    then show ?thesis using Some by (cases x) (auto simp: entity_label_def)
  qed
qed

lemma entity_label_nonempty: "entity_label alpha_tbl t \<noteq> []"
  using entity_label_cases [of alpha_tbl t] by (auto simp: Entity_literal)

lemma entity_label_starts_alpha: "isalpha alpha_tbl (hd (entity_label alpha_tbl t))"
  using entity_label_cases [of alpha_tbl t] by (auto simp: Entity_literal isalpha_E)

lemma entity_label_no_pipe: "124 \<notin> set (entity_label alpha_tbl t)"
proof -
  have "124 \<notin> set (str_strip (first_field 124 x))" for x
    using set_str_strip [of "first_field 124 x"] first_field_no_sep [of 124 x] by blast
  then show ?thesis using entity_label_cases [of alpha_tbl t] by (auto simp: Entity_literal)
qed

lemma RELATED_TO_literal: "of_ascii ''RELATED_TO'' = [82, 69, 76, 65, 84, 69, 68, 95, 84, 79]"
  by (simp add: of_ascii_def)

lemma relationship_label_length: "2 \<le> length (relationship_label upper_tbl r)"
  by (simp add: relationship_label_def Let_def RELATED_TO_literal)

lemma relationship_label_cases:
  "relationship_label upper_tbl r = of_ascii ''RELATED_TO'' \<or>
   relationship_label upper_tbl r = str_upper upper_tbl (str_replace (str_replace r 32 95) 124 95)"
  by (simp add: relationship_label_def Let_def)

lemma str_replace_removes: "old \<noteq> new \<Longrightarrow> old \<notin> set (str_replace s old new)"
  by (auto simp: str_replace_def)

lemma str_replace_keeps_out: "c \<notin> set s \<Longrightarrow> c \<noteq> new \<Longrightarrow> c \<notin> set (str_replace s old new)"
  by (auto simp: str_replace_def)

lemma upper_char_no_space_pipe:
  assumes "\<forall>c. 128 \<le> c \<longrightarrow> 32 \<notin> set (upper_tbl c) \<and> 124 \<notin> set (upper_tbl c)"
      and "c \<noteq> 32" "c \<noteq> 124"
  shows "32 \<notin> set (upper_char upper_tbl c) \<and> 124 \<notin> set (upper_char upper_tbl c)"
proof (cases "c < 128")
  case True
  then show ?thesis using assms(2,3) by (auto simp: upper_char_def)
next
  case False
  then show ?thesis using assms(1) by (simp add: upper_char_def)
qed

lemma relationship_label_no_space_pipe:
  assumes "\<forall>c. 128 \<le> c \<longrightarrow> 32 \<notin> set (upper_tbl c) \<and> 124 \<notin> set (upper_tbl c)"
  shows "32 \<notin> set (relationship_label upper_tbl r) \<and> 124 \<notin> set (relationship_label upper_tbl r)"
proof -
  let ?s = "str_replace (str_replace r 32 95) 124 95"
  have a: "32 \<notin> set ?s"
    by (intro str_replace_keeps_out str_replace_removes) simp_all
  have b: "124 \<notin> set ?s" by (intro str_replace_removes) simp
  have "32 \<notin> set (str_upper upper_tbl ?s) \<and> 124 \<notin> set (str_upper upper_tbl ?s)"
    unfolding str_upper_def using upper_char_no_space_pipe [OF assms] a b
    by (auto simp del: set_concat simp add: set_concat) metis+
  then show ?thesis
    using relationship_label_cases [of upper_tbl r] by (auto simp: RELATED_TO_literal)
qed

lemma first_field_append: "sep \<notin> set a \<Longrightarrow> first_field sep (a @ sep # b) = a"
  by (induction a) auto

lemma str_replace_twice:
  "str_replace (str_replace r 32 95) 124 95 = map (\<lambda>c. if c = 32 \<or> c = 124 then 95 else c) r"
  by (simp add: str_replace_def)

lemma str_upper_ascii:
  "\<forall>c\<in>set s. c < 128 \<Longrightarrow>
   str_upper upper_tbl s = map (\<lambda>c. if 97 \<le> c \<and> c \<le> 122 then c - 32 else c) s"
  by (induction s) (simp_all add: str_upper_def upper_char_def)

lemma str_upper_replace_ascii:
  assumes "\<forall>c\<in>set r. c < 128"
  shows "str_upper upper_tbl (map (\<lambda>c. if c = 32 \<or> c = 124 then 95 else c) r) =
         map (\<lambda>c. if c = 32 \<or> c = 124 then 95 else if 97 \<le> c \<and> c \<le> 122 then c - 32 else c) r"
proof -
  have "\<forall>c\<in>set (map (\<lambda>c. if c = 32 \<or> c = 124 then 95 else c) r). c < (128::nat)"
    using assms by auto
  from str_upper_ascii [OF this] show ?thesis by (auto simp: comp_def)
qed

lemma relationship_label_eq:
  "relationship_label upper_tbl r =
     (let u = str_upper upper_tbl (map (\<lambda>c. if c = 32 \<or> c = 124 then 95 else c) r)
      in if length u < 2 then of_ascii ''RELATED_TO'' else u)"
  by (auto simp: relationship_label_def str_replace_twice Let_def)

lemma entity_label_no_type: "entity_label alpha_tbl None = of_ascii ''Entity''"
  by (simp add: entity_label_def Entity_literal isalpha_E)

lemma entity_label_plain:
  "124 \<notin> set x \<Longrightarrow>
   entity_label alpha_tbl (Some x) =
     (if x \<noteq> [] \<and> isalpha alpha_tbl (hd x) then x else of_ascii ''Entity'')"
  by (cases x) (auto simp: entity_label_def)

lemma entity_label_piped:
  assumes "124 \<notin> set a"
  shows "entity_label alpha_tbl (Some (a @ 124 # b)) =
           (if str_strip a \<noteq> [] \<and> isalpha alpha_tbl (hd (str_strip a)) then str_strip a
            else of_ascii ''Entity'')"
  using first_field_append [OF assms, of b]
  by (cases "str_strip a") (auto simp: entity_label_def)

subsection \<open>The queries issued\<close>

lemma store_entities_events:
  fixes svc :: "'w services" and s :: "'w state"
  assumes "ev \<in> set (trace (snd (store_entities svc alpha_tbl es ids s)))"
  shows "ev \<in> set (trace s) \<or>
         (\<exists>e\<in>set es. ev = Neo4jRun (MergeNode (entity_label alpha_tbl (ent_type e)) (ent_name e)
                                     (case ent_description e of None \<Rightarrow> [] | Some d \<Rightarrow> d)))"
  using assms
proof (induction es arbitrary: ids s)
  case Nil
  then show ?case by simp
next
  case (Cons e rest)
  let ?q = "MergeNode (entity_label alpha_tbl (ent_type e)) (ent_name e)
              (case ent_description e of None \<Rightarrow> [] | Some d \<Rightarrow> d)"
  let ?s1 = "\<lparr>world = snd (neo4j_run svc ?q (world s)), trace = trace s @ [Neo4jRun ?q]\<rparr>"
  show ?case
  proof (cases "fst (neo4j_run svc ?q (world s))")
    case (Inl err)
    then have "snd (store_entities svc alpha_tbl (e # rest) ids s) = ?s1"
      by (simp add: call_eq Let_def)
    then show ?thesis using Cons.prems by auto
  next
    case (Inr res)
    then obtain ids' where "store_entities svc alpha_tbl (e # rest) ids s =
        store_entities svc alpha_tbl rest ids' ?s1"
      by (cases res) (simp_all add: call_eq Let_def)
    then have "ev \<in> set (trace (snd (store_entities svc alpha_tbl rest ids' ?s1)))"
      using Cons.prems by simp
    from Cons.IH [OF this] show ?thesis by auto
  qed
qed

lemma create_edge_events:
  fixes svc :: "'w services" and s :: "'w state" and rel :: relationship
  assumes "ev \<in> set (trace (create_edge svc upper_tbl rel from_id to_id s))"
  shows "ev \<in> set (trace s) \<or>
         ev = Neo4jRun (MergeEdge (relationship_label upper_tbl (rel_type rel)) from_id to_id) \<or>
         (\<exists>lvl template args. ev = Log lvl template args)"
proof (cases "fst (neo4j_run svc (MergeEdge (relationship_label upper_tbl (rel_type rel)) from_id to_id) (world s))")
  case (Inl err)
  then show ?thesis using assms by (auto simp: create_edge_def call_eq log_def Let_def)
next
  case (Inr res)
  then show ?thesis using assms by (auto simp: create_edge_def call_eq Let_def)
qed

lemma store_relationships_events:
  fixes svc :: "'w services" and s :: "'w state"
  assumes "ev \<in> set (trace (store_relationships svc upper_tbl rels ids s))"
  shows "ev \<in> set (trace s) \<or>
         (\<exists>rel\<in>set rels. \<exists>from_id to_id.
            ev = Neo4jRun (MergeEdge (relationship_label upper_tbl (rel_type rel)) from_id to_id)) \<or>
         (\<exists>lvl template args. ev = Log lvl template args)"
  using assms
proof (induction rels arbitrary: s)
  case Nil
  then show ?case by simp
next
  case (Cons rel rest)
  have "(\<exists>from_id to_id. store_relationships svc upper_tbl (rel # rest) ids s =
       store_relationships svc upper_tbl rest ids (create_edge svc upper_tbl rel from_id to_id s)) \<or>
     store_relationships svc upper_tbl (rel # rest) ids s =
       store_relationships svc upper_tbl rest ids s"
    by (auto split: option.split)
  then consider (edge) from_id to_id where
      "store_relationships svc upper_tbl (rel # rest) ids s =
       store_relationships svc upper_tbl rest ids (create_edge svc upper_tbl rel from_id to_id s)"
    | (skip) "store_relationships svc upper_tbl (rel # rest) ids s =
       store_relationships svc upper_tbl rest ids s"
    by blast
  then show ?case
  proof cases
    case edge
    then have "ev \<in> set (trace (store_relationships svc upper_tbl rest ids
                 (create_edge svc upper_tbl rel from_id to_id s)))"
      using Cons.prems by simp
    from Cons.IH [OF this] show ?thesis
      using create_edge_events [of ev svc upper_tbl rel from_id to_id s] by auto
  next
    case skip
    then have "ev \<in> set (trace (store_relationships svc upper_tbl rest ids s))"
      using Cons.prems by simp
    from Cons.IH [OF this] show ?thesis by auto
  qed
qed

lemma store_in_neo4j_events:
  fixes svc :: "'w services" and s :: "'w state"
  assumes "ev \<in> set (trace (snd (store_in_neo4j svc alpha_tbl upper_tbl es rels s)))"
  shows "ev \<in> set (trace s) \<or> ev = Neo4jSession \<or>
         (\<exists>e\<in>set es. ev = Neo4jRun (MergeNode (entity_label alpha_tbl (ent_type e)) (ent_name e)
                                     (case ent_description e of None \<Rightarrow> [] | Some d \<Rightarrow> d))) \<or>
         (\<exists>rel\<in>set rels. \<exists>from_id to_id.
            ev = Neo4jRun (MergeEdge (relationship_label upper_tbl (rel_type rel)) from_id to_id)) \<or>
         (\<exists>lvl template args. ev = Log lvl template args)"
proof -
  let ?s1 = "\<lparr>world = snd (neo4j_session svc (world s)), trace = trace s @ [Neo4jSession]\<rparr>"
  show ?thesis
  proof (cases "fst (neo4j_session svc (world s))")
    case (Inl err)
    then show ?thesis using assms by (auto simp: store_in_neo4j_def call_eq)
  next
    case (Inr u)
    show ?thesis
    proof (cases "fst (store_entities svc alpha_tbl es [] ?s1)")
      case (Inl err)
      then have "snd (store_in_neo4j svc alpha_tbl upper_tbl es rels s) =
                 snd (store_entities svc alpha_tbl es [] ?s1)"
        using Inr by (cases "store_entities svc alpha_tbl es [] ?s1")
          (simp add: store_in_neo4j_def call_eq)
      then show ?thesis
        using assms store_entities_events [of ev svc alpha_tbl es "[]" ?s1] by auto
    next
      case ids: (Inr ids)
      then have "snd (store_in_neo4j svc alpha_tbl upper_tbl es rels s) =
                 log INFO ''Stored {} entities and {} relationships''
                   [ArgInt (int (length ids)), ArgInt (int (length rels))]
                   (store_relationships svc upper_tbl rels ids
                      (snd (store_entities svc alpha_tbl es [] ?s1)))"
        using Inr by (cases "store_entities svc alpha_tbl es [] ?s1")
          (simp add: store_in_neo4j_def call_eq)
      then have "ev \<in> set (trace (store_relationships svc upper_tbl rels ids
                      (snd (store_entities svc alpha_tbl es [] ?s1)))) \<or>
                 (\<exists>lvl template args. ev = Log lvl template args)"
        using assms by (auto simp: log_def)
      then show ?thesis
        using store_relationships_events [of ev svc upper_tbl rels ids
                "snd (store_entities svc alpha_tbl es [] ?s1)"]
              store_entities_events [of ev svc alpha_tbl es "[]" ?s1] by auto
    qed
  qed
qed

subsection \<open>Claim C6\<close>

text \<open>
  Claim C6, as amended. The label spliced into the node query is \<^verbatim>\<open>Entity\<close> for an entity
  without a type; for a type without a pipe character it is the type itself when that is not
  empty and starts with a letter, and \<^verbatim>\<open>Entity\<close> otherwise; for a type with a pipe it is the
  part before the first pipe, trimmed, when that is not empty and starts with a letter, and
  \<^verbatim>\<open>Entity\<close> otherwise. So the label is never empty, starts with a letter and holds no
  pipe, and every other character of the type is kept as it is. The relationship type spliced
  into the edge query is the type with each space and each pipe replaced by an underscore and
  then upper-cased, and \<^verbatim>\<open>RELATED_TO\<close> when that has fewer than 2 characters; on a type
  made of ASCII characters the upper-casing changes the letters a to z only, so every other
  character is kept as it is. The relationship type has at least 2 characters and, as
  upper-casing a character beyond ASCII yields no space and no pipe, neither a space nor a
  pipe. Every node upsert that \<^verbatim>\<open>store_in_neo4j\<close> issues carries the label and the name of one
  of its entities, and every edge upsert the relationship type of one of its relationships.
\<close>

theorem type_labels:
  fixes svc :: "'w services" and s :: "'w state"
  shows
  "entity_label alpha_tbl None = of_ascii ''Entity'' \<and>
   (\<forall>x. 124 \<notin> set x \<longrightarrow>
      entity_label alpha_tbl (Some x) =
        (if x \<noteq> [] \<and> isalpha alpha_tbl (hd x) then x else of_ascii ''Entity'')) \<and>
   (\<forall>a b. 124 \<notin> set a \<longrightarrow>
      entity_label alpha_tbl (Some (a @ 124 # b)) =
        (if str_strip a \<noteq> [] \<and> isalpha alpha_tbl (hd (str_strip a)) then str_strip a
         else of_ascii ''Entity'')) \<and>
   entity_label alpha_tbl t \<noteq> [] \<and>
   isalpha alpha_tbl (hd (entity_label alpha_tbl t)) \<and>
   124 \<notin> set (entity_label alpha_tbl t) \<and>
   relationship_label upper_tbl r =
     (let u = str_upper upper_tbl (map (\<lambda>c. if c = 32 \<or> c = 124 then 95 else c) r)
      in if length u < 2 then of_ascii ''RELATED_TO'' else u) \<and>
   ((\<forall>c\<in>set r. c < 128) \<longrightarrow>
      str_upper upper_tbl (map (\<lambda>c. if c = 32 \<or> c = 124 then 95 else c) r) =
        map (\<lambda>c. if c = 32 \<or> c = 124 then 95 else if 97 \<le> c \<and> c \<le> 122 then c - 32 else c) r) \<and>
   2 \<le> length (relationship_label upper_tbl r) \<and>
   ((\<forall>c. 128 \<le> c \<longrightarrow> 32 \<notin> set (upper_tbl c) \<and> 124 \<notin> set (upper_tbl c)) \<longrightarrow>
      32 \<notin> set (relationship_label upper_tbl r) \<and> 124 \<notin> set (relationship_label upper_tbl r)) \<and>
   (\<forall>label name description.
      Neo4jRun (MergeNode label name description)
        \<in> set (trace (snd (store_in_neo4j svc alpha_tbl upper_tbl entities relationships s))) \<longrightarrow>
      Neo4jRun (MergeNode label name description) \<in> set (trace s) \<or>
      (\<exists>e\<in>set entities. label = entity_label alpha_tbl (ent_type e) \<and> name = ent_name e)) \<and>
   (\<forall>label from_id to_id.
      Neo4jRun (MergeEdge label from_id to_id)
        \<in> set (trace (snd (store_in_neo4j svc alpha_tbl upper_tbl entities relationships s))) \<longrightarrow>
      Neo4jRun (MergeEdge label from_id to_id) \<in> set (trace s) \<or>
      (\<exists>rel\<in>set relationships. label = relationship_label upper_tbl (rel_type rel)))"
proof -
  have nodes: "Neo4jRun (MergeNode label name description) \<in> set (trace s) \<or>
      (\<exists>e\<in>set entities. label = entity_label alpha_tbl (ent_type e) \<and> name = ent_name e)"
    if "Neo4jRun (MergeNode label name description)
        \<in> set (trace (snd (store_in_neo4j svc alpha_tbl upper_tbl entities relationships s)))"
    for label name description
    using store_in_neo4j_events [OF that] by auto
  have edges: "Neo4jRun (MergeEdge label from_id to_id) \<in> set (trace s) \<or>
      (\<exists>rel\<in>set relationships. label = relationship_label upper_tbl (rel_type rel))"
    if "Neo4jRun (MergeEdge label from_id to_id)
        \<in> set (trace (snd (store_in_neo4j svc alpha_tbl upper_tbl entities relationships s)))"
    for label from_id to_id
    using store_in_neo4j_events [OF that] by auto
  show ?thesis
    using entity_label_no_type [of alpha_tbl] entity_label_plain [of _ alpha_tbl]
      entity_label_piped [of _ alpha_tbl]
      entity_label_nonempty [of alpha_tbl t] entity_label_starts_alpha [of alpha_tbl t]
      entity_label_no_pipe [of alpha_tbl t]
      relationship_label_eq [of upper_tbl r] str_upper_replace_ascii [of r upper_tbl]
      relationship_label_length [of upper_tbl r]
      relationship_label_no_space_pipe [of upper_tbl r] nodes edges
    by (intro conjI impI allI) blast+
qed

theorem type_labels_witness:
  "entity_label (\<lambda>c. False) (Some (of_ascii ''Crop | Disease'')) = of_ascii ''Crop'' \<and>
   entity_label (\<lambda>c. False) (Some (of_ascii ''Crop'')) = of_ascii ''Crop'' \<and>
   entity_label (\<lambda>c. False) (Some (of_ascii ''3 crops'')) = of_ascii ''Entity'' \<and>
   entity_label (\<lambda>c. False) (Some (of_ascii '' |Crop'')) = of_ascii ''Entity'' \<and>
   relationship_label (\<lambda>c. [c]) (of_ascii ''treats crop'') = of_ascii ''TREATS_CROP'' \<and>
   32 \<notin> set (relationship_label (\<lambda>c. [c]) (of_ascii ''treats crop'')) \<and>
   124 \<notin> set (relationship_label (\<lambda>c. [c]) (of_ascii ''treats crop'')) \<and>
   Neo4jRun (MergeNode (of_ascii ''Crop'') (of_ascii ''rust'') [])
     \<in> set (trace (snd (store_in_neo4j edges_refused (\<lambda>c. False) (\<lambda>c. [c])
         [\<lparr>ent_name = of_ascii ''rust'', ent_type = Some (of_ascii ''Crop | Disease''),
           ent_description = None\<rparr>]
         [\<lparr>rel_from = of_ascii ''rust'', rel_to = of_ascii ''rust'',
           rel_type = of_ascii ''treats crop''\<rparr>] start))) \<and>
   (\<exists>e\<in>set [\<lparr>ent_name = of_ascii ''rust'', ent_type = Some (of_ascii ''Crop | Disease''),
               ent_description = None\<rparr>].
      of_ascii ''Crop'' = entity_label (\<lambda>c. False) (ent_type e) \<and> of_ascii ''rust'' = ent_name e) \<and>
   Neo4jRun (MergeEdge (of_ascii ''TREATS_CROP'') (NString (of_ascii ''rust''))
       (NString (of_ascii ''rust'')))
     \<in> set (trace (snd (store_in_neo4j edges_refused (\<lambda>c. False) (\<lambda>c. [c])
         [\<lparr>ent_name = of_ascii ''rust'', ent_type = Some (of_ascii ''Crop | Disease''),
           ent_description = None\<rparr>]
         [\<lparr>rel_from = of_ascii ''rust'', rel_to = of_ascii ''rust'',
           rel_type = of_ascii ''treats crop''\<rparr>] start))) \<and>
   (\<exists>rel\<in>set [\<lparr>rel_from = of_ascii ''rust'', rel_to = of_ascii ''rust'',
                 rel_type = of_ascii ''treats crop''\<rparr>].
      of_ascii ''TREATS_CROP'' = relationship_label (\<lambda>c. [c]) (rel_type rel))"
proof -
  let ?es = "[\<lparr>ent_name = of_ascii ''rust'', ent_type = Some (of_ascii ''Crop | Disease''),
               ent_description = None\<rparr>]"
  let ?rels = "[\<lparr>rel_from = of_ascii ''rust'', rel_to = of_ascii ''rust'',
                 rel_type = of_ascii ''treats crop''\<rparr>]"
  note T = type_labels [where alpha_tbl = "\<lambda>c. False" and upper_tbl = "\<lambda>c. [c]"
      and r = "of_ascii ''treats crop''" and t = None and svc = edges_refused and s = start
      and entities = ?es and relationships = ?rels]
  have plain: "\<forall>x. 124 \<notin> set x \<longrightarrow>
      entity_label (\<lambda>c. False) (Some x) =
        (if x \<noteq> [] \<and> isalpha (\<lambda>c. False) (hd x) then x else of_ascii ''Entity'')"
    using T by blast
  have piped: "\<forall>a b. 124 \<notin> set a \<longrightarrow>
      entity_label (\<lambda>c. False) (Some (a @ 124 # b)) =
        (if str_strip a \<noteq> [] \<and> isalpha (\<lambda>c. False) (hd (str_strip a)) then str_strip a
         else of_ascii ''Entity'')"
    using T by blast
  have e1: "of_ascii ''Crop | Disease'' = of_ascii ''Crop '' @ 124 # of_ascii '' Disease''"
    by (simp add: of_ascii_def)
  have e2: "124 \<notin> set (of_ascii ''Crop '')" by (simp add: of_ascii_def)
  have e3: "str_strip (of_ascii ''Crop '') = of_ascii ''Crop''"
    by (simp add: str_strip_def of_ascii_def isspace_def)
  have e4: "of_ascii ''Crop'' \<noteq> [] \<and> isalpha (\<lambda>c. False) (hd (of_ascii ''Crop'')) \<and>
            124 \<notin> set (of_ascii ''Crop'')"
    by (simp add: of_ascii_def isalpha_def)
  have c1: "entity_label (\<lambda>c. False) (Some (of_ascii ''Crop | Disease'')) = of_ascii ''Crop''"
    using piped [rule_format, OF e2, of "of_ascii '' Disease''"] e3 e4 unfolding e1 by simp
  have c2: "entity_label (\<lambda>c. False) (Some (of_ascii ''Crop'')) = of_ascii ''Crop''"
    using plain [rule_format, of "of_ascii ''Crop''"] e4 by simp
  have e5: "124 \<notin> set (of_ascii ''3 crops'') \<and> \<not> isalpha (\<lambda>c. False) (hd (of_ascii ''3 crops''))"
    by (simp add: of_ascii_def isalpha_def)
  have c3: "entity_label (\<lambda>c. False) (Some (of_ascii ''3 crops'')) = of_ascii ''Entity''"
    using plain [rule_format, of "of_ascii ''3 crops''"] e5 by simp
  have e6: "of_ascii '' |Crop'' = of_ascii '' '' @ 124 # of_ascii ''Crop''"
    by (simp add: of_ascii_def)
  have e7: "124 \<notin> set (of_ascii '' '') \<and> str_strip (of_ascii '' '') = []"
    by (simp add: str_strip_def of_ascii_def isspace_def)
  have c4: "entity_label (\<lambda>c. False) (Some (of_ascii '' |Crop'')) = of_ascii ''Entity''"
    using piped [rule_format, of "of_ascii '' ''" "of_ascii ''Crop''"] e7 unfolding e6 by simp
  have r1: "\<forall>c\<in>set (of_ascii ''treats crop''). c < 128" by (simp add: of_ascii_def)
  have r2: "map (\<lambda>c. if c = 32 \<or> c = 124 then 95 else if 97 \<le> c \<and> c \<le> 122 then c - 32 else c)
              (of_ascii ''treats crop'') = of_ascii ''TREATS_CROP''"
    by (simp add: of_ascii_def)
  have r3: "\<not> length (of_ascii ''TREATS_CROP'') < 2" by (simp add: of_ascii_def)
  have r4: "str_upper (\<lambda>c. [c]) (map (\<lambda>c. if c = 32 \<or> c = 124 then 95 else c)
              (of_ascii ''treats crop'')) = of_ascii ''TREATS_CROP''"
    using T r1 unfolding r2 by blast
  have r5: "relationship_label (\<lambda>c. [c]) (of_ascii ''treats crop'') =
     (let u = str_upper (\<lambda>c. [c]) (map (\<lambda>c. if c = 32 \<or> c = 124 then 95 else c)
                 (of_ascii ''treats crop''))
      in if length u < 2 then of_ascii ''RELATED_TO'' else u)"
    using T by blast
  have c5: "relationship_label (\<lambda>c. [c]) (of_ascii ''treats crop'') = of_ascii ''TREATS_CROP''"
    using r5 r3 unfolding r4 by (simp add: Let_def)
  have r6: "\<forall>c::nat. 128 \<le> c \<longrightarrow> 32 \<notin> set [c] \<and> 124 \<notin> set [c]" by simp
  have c6: "32 \<notin> set (relationship_label (\<lambda>c. [c]) (of_ascii ''treats crop'')) \<and>
            124 \<notin> set (relationship_label (\<lambda>c. [c]) (of_ascii ''treats crop''))"
    using T r6 by blast
  have c7: "Neo4jRun (MergeNode (of_ascii ''Crop'') (of_ascii ''rust'') [])
     \<in> set (trace (snd (store_in_neo4j edges_refused (\<lambda>c. False) (\<lambda>c. [c]) ?es ?rels start)))"
    by (simp add: store_in_neo4j_def call_eq edges_refused_def offline_def start_def log_def c1
          create_edge_def Let_def)
  have c8: "\<exists>e\<in>set ?es.
      of_ascii ''Crop'' = entity_label (\<lambda>c. False) (ent_type e) \<and> of_ascii ''rust'' = ent_name e"
  proof -
    have "Neo4jRun (MergeNode (of_ascii ''Crop'') (of_ascii ''rust'') []) \<notin> set (trace start)"
      by (simp add: start_def)
    then show ?thesis using T c7 by blast
  qed
  have rust: "of_ascii ''rust'' \<noteq> []" by (simp add: of_ascii_def)
  have c9: "Neo4jRun (MergeEdge (of_ascii ''TREATS_CROP'') (NString (of_ascii ''rust''))
       (NString (of_ascii ''rust'')))
     \<in> set (trace (snd (store_in_neo4j edges_refused (\<lambda>c. False) (\<lambda>c. [c]) ?es ?rels start)))"
    using c1 c5 rust
    by (simp add: store_in_neo4j_def call_eq edges_refused_def offline_def start_def log_def
          create_edge_def Let_def)
  have c10: "\<exists>rel\<in>set ?rels.
      of_ascii ''TREATS_CROP'' = relationship_label (\<lambda>c. [c]) (rel_type rel)"
  proof -
    have "Neo4jRun (MergeEdge (of_ascii ''TREATS_CROP'') (NString (of_ascii ''rust''))
            (NString (of_ascii ''rust''))) \<notin> set (trace start)"
      by (simp add: start_def)
    then show ?thesis using T c9 by blast
  qed
  show ?thesis using c1 c2 c3 c4 c5 c6 c7 c8 c9 c10 by (intro conjI) blast+
qed

text \<open>
  The claim as stated fails: an entity type that starts with a letter and has no pipe reaches
  the node query unchanged, with its spaces and parentheses, and a relationship type keeps
  its brackets, parentheses and slashes. Neither label is one that needs no escaping.
\<close>

theorem type_labels_counterexample:
  "entity_label (\<lambda>c. False) (Some (of_ascii ''Crop) DETACH DELETE (n'')) =
     of_ascii ''Crop) DETACH DELETE (n'' \<and>
   \<not> plain_label (\<lambda>c. False) (entity_label (\<lambda>c. False) (Some (of_ascii ''Crop) DETACH DELETE (n''))) \<and>
   trace (snd (store_in_neo4j
      (offline\<lparr>neo4j_session := \<lambda>w. (Inr (), w),
               neo4j_run := \<lambda>query w. (Inr (Some (NString (of_ascii ''4:a:0''))), w)\<rparr>)
      (\<lambda>c. False) (\<lambda>c. [c])
      [\<lparr>ent_name = of_ascii ''rust'', ent_type = Some (of_ascii ''Crop) DETACH DELETE (n''),
        ent_description = None\<rparr>] [] start)) =
     [Neo4jSession,
      Neo4jRun (MergeNode (of_ascii ''Crop) DETACH DELETE (n'') (of_ascii ''rust'') []),
      Log INFO ''Stored {} entities and {} relationships'' [ArgInt 1, ArgInt 0]] \<and>
   relationship_label (\<lambda>c. [c]) (of_ascii ''treats]->(b) //'') = of_ascii ''TREATS]->(B)_//'' \<and>
   \<not> plain_label (\<lambda>c. False) (relationship_label (\<lambda>c. [c]) (of_ascii ''treats]->(b) //''))"
  by (simp add: entity_label_def plain_label_def of_ascii_def isalpha_def relationship_label_def
        str_upper_def upper_char_def str_replace_def store_in_neo4j_def call_eq offline_def
        start_def log_def)

subsection \<open>Claim C7\<close>

lemma store_relationships_append:
  "store_relationships svc upper_tbl (rels1 @ rels2) entity_ids s =
   store_relationships svc upper_tbl rels2 entity_ids
     (store_relationships svc upper_tbl rels1 entity_ids s)"
  by (induction rels1 arbitrary: s) (auto split: option.splits)

lemma store_relationships_skip:
  assumes "map_of entity_ids (rel_from r) = None \<or> map_of entity_ids (rel_to r) = None"
  shows "store_relationships svc upper_tbl (r # rest) entity_ids s =
         store_relationships svc upper_tbl rest entity_ids s"
  using assms by (auto split: option.splits)

lemma store_relationships_skip_within:
  assumes "map_of entity_ids (rel_from r) = None \<or> map_of entity_ids (rel_to r) = None"
  shows "store_relationships svc upper_tbl (rels1 @ r # rels2) entity_ids s =
         store_relationships svc upper_tbl (rels1 @ rels2) entity_ids s"
  by (simp only: store_relationships_append store_relationships_skip [OF assms])

lemma create_edge_failure:
  assumes "neo4j_run svc (MergeEdge (relationship_label upper_tbl (rel_type r)) from_id to_id)
             (world s) = (Inl e, w')"
  shows "create_edge svc upper_tbl r from_id to_id s =
     \<lparr>world = w',
      trace = trace s @
        [Neo4jRun (MergeEdge (relationship_label upper_tbl (rel_type r)) from_id to_id),
         Log WARNING ''Could not create relationship {}: {}''
           [ArgStr (relationship_label upper_tbl (rel_type r)), ArgErr e]]\<rparr>"
  using assms by (simp add: create_edge_def call_eq Let_def log_def)

lemma store_relationships_edge_failure:
  fixes r :: relationship
  assumes "map_of entity_ids (rel_from r) = Some from_id" "map_of entity_ids (rel_to r) = Some to_id"
      and "truthy from_id" "truthy to_id"
      and "neo4j_run svc (MergeEdge (relationship_label upper_tbl (rel_type r)) from_id to_id)
             (world s) = (Inl e, w')"
  shows "store_relationships svc upper_tbl (r # rest) entity_ids s =
     store_relationships svc upper_tbl rest entity_ids
       \<lparr>world = w',
        trace = trace s @
          [Neo4jRun (MergeEdge (relationship_label upper_tbl (rel_type r)) from_id to_id),
           Log WARNING ''Could not create relationship {}: {}''
             [ArgStr (relationship_label upper_tbl (rel_type r)), ArgErr e]]\<rparr>"
  using assms(1-4) create_edge_failure [OF assms(5)] by simp

lemma store_in_neo4j_success:
  assumes "call Neo4jSession (neo4j_session svc) s = (Inr u, s1)"
      and "store_entities svc alpha_tbl entities [] s1 = (Inr entity_ids, s2)"
  shows "store_in_neo4j svc alpha_tbl upper_tbl entities relationships s =
     (Inr (),
      log INFO ''Stored {} entities and {} relationships''
        [ArgInt (int (length entity_ids)), ArgInt (int (length relationships))]
        (store_relationships svc upper_tbl relationships entity_ids s2))"
  using assms by (simp add: store_in_neo4j_def)

text \<open>
  Claim C7. Once the session is open and the entities are stored, with the identifiers
  \<open>entity_ids\<close>, \<^verbatim>\<open>store_in_neo4j\<close> returns normally whatever the edge queries do. A relationship
  with an endpoint missing from \<open>entity_ids\<close> is skipped silently: the call ends as if the
  relationship were not in the batch (no query is run for it and no line is logged), the final
  summary line alone counting it. An edge query that raises is logged as a warning, and the loop
  goes on with the next relationship.
\<close>

theorem store_in_neo4j_skips_unresolved:
  fixes svc :: "'w services"
  assumes "call Neo4jSession (neo4j_session svc) s = (Inr u, s1)"
      and "store_entities svc alpha_tbl entities [] s1 = (Inr entity_ids, s2)"
  shows "fst (store_in_neo4j svc alpha_tbl upper_tbl entities relationships s) = Inr () \<and>
     (\<forall>rels1 r rels2.
        relationships = rels1 @ r # rels2 \<and>
        (map_of entity_ids (rel_from r) = None \<or> map_of entity_ids (rel_to r) = None) \<longrightarrow>
        store_in_neo4j svc alpha_tbl upper_tbl entities relationships s =
          (Inr (),
           log INFO ''Stored {} entities and {} relationships''
             [ArgInt (int (length entity_ids)), ArgInt (int (length relationships))]
             (store_relationships svc upper_tbl (rels1 @ rels2) entity_ids s2))) \<and>
     (\<forall>(r :: relationship) rest from_id to_id e w' (s' :: 'w state).
        map_of entity_ids (rel_from r) = Some from_id \<and> map_of entity_ids (rel_to r) = Some to_id \<and>
        truthy from_id \<and> truthy to_id \<and>
        neo4j_run svc (MergeEdge (relationship_label upper_tbl (rel_type r)) from_id to_id)
          (world s') = (Inl e, w') \<longrightarrow>
        store_relationships svc upper_tbl (r # rest) entity_ids s' =
          store_relationships svc upper_tbl rest entity_ids
            \<lparr>world = w',
             trace = trace s' @
               [Neo4jRun (MergeEdge (relationship_label upper_tbl (rel_type r)) from_id to_id),
                Log WARNING ''Could not create relationship {}: {}''
                  [ArgStr (relationship_label upper_tbl (rel_type r)), ArgErr e]]\<rparr>)"
proof (intro conjI allI impI)
  show "fst (store_in_neo4j svc alpha_tbl upper_tbl entities relationships s) = Inr ()"
    by (simp add: store_in_neo4j_success [OF assms])
next
  fix rels1 r rels2
  assume a: "relationships = rels1 @ r # rels2 \<and>
    (map_of entity_ids (rel_from r) = None \<or> map_of entity_ids (rel_to r) = None)"
  then have "store_relationships svc upper_tbl relationships entity_ids s2 =
             store_relationships svc upper_tbl (rels1 @ rels2) entity_ids s2"
    using store_relationships_skip_within by blast
  then show "store_in_neo4j svc alpha_tbl upper_tbl entities relationships s =
          (Inr (),
           log INFO ''Stored {} entities and {} relationships''
             [ArgInt (int (length entity_ids)), ArgInt (int (length relationships))]
             (store_relationships svc upper_tbl (rels1 @ rels2) entity_ids s2))"
    by (simp only: store_in_neo4j_success [OF assms])
next
  fix r :: relationship and rest from_id to_id e w' and s' :: "'w state"
  assume a: "map_of entity_ids (rel_from r) = Some from_id \<and> map_of entity_ids (rel_to r) = Some to_id \<and>
        truthy from_id \<and> truthy to_id \<and>
        neo4j_run svc (MergeEdge (relationship_label upper_tbl (rel_type r)) from_id to_id)
          (world s') = (Inl e, w')"
  show "store_relationships svc upper_tbl (r # rest) entity_ids s' =
          store_relationships svc upper_tbl rest entity_ids
            \<lparr>world = w',
             trace = trace s' @
               [Neo4jRun (MergeEdge (relationship_label upper_tbl (rel_type r)) from_id to_id),
                Log WARNING ''Could not create relationship {}: {}''
                  [ArgStr (relationship_label upper_tbl (rel_type r)), ArgErr e]]\<rparr>"
    by (rule store_relationships_edge_failure) (use a in blast)+
qed

text \<open>
  A run on a store that refuses every edge, with one relationship whose target is unknown and
  one whose endpoints are known.
\<close>

theorem store_in_neo4j_skips_unresolved_witness:
  "call Neo4jSession (neo4j_session edges_refused) start =
     (Inr (), \<lparr>world = (), trace = [Neo4jSession]\<rparr>) \<and>
   store_entities edges_refused (\<lambda>c. False)
     [\<lparr>ent_name = of_ascii ''rust'', ent_type = Some (of_ascii ''Disease''), ent_description = None\<rparr>]
     [] \<lparr>world = (), trace = [Neo4jSession]\<rparr> =
     (Inr [(of_ascii ''rust'', NString (of_ascii ''rust''))],
      \<lparr>world = (),
       trace = [Neo4jSession, Neo4jRun (MergeNode (of_ascii ''Disease'') (of_ascii ''rust'') [])]\<rparr>) \<and>
   map_of [(of_ascii ''rust'', NString (of_ascii ''rust''))] (of_ascii ''wheat'') = None \<and>
   fst (store_in_neo4j edges_refused (\<lambda>c. False) (\<lambda>c. [c])
     [\<lparr>ent_name = of_ascii ''rust'', ent_type = Some (of_ascii ''Disease''), ent_description = None\<rparr>]
     [\<lparr>rel_from = of_ascii ''rust'', rel_to = of_ascii ''wheat'', rel_type = of_ascii ''affects''\<rparr>,
      \<lparr>rel_from = of_ascii ''rust'', rel_to = of_ascii ''rust'', rel_type = of_ascii ''affects''\<rparr>]
     start) = Inr () \<and>
   store_in_neo4j edges_refused (\<lambda>c. False) (\<lambda>c. [c])
     [\<lparr>ent_name = of_ascii ''rust'', ent_type = Some (of_ascii ''Disease''), ent_description = None\<rparr>]
     [\<lparr>rel_from = of_ascii ''rust'', rel_to = of_ascii ''wheat'', rel_type = of_ascii ''affects''\<rparr>,
      \<lparr>rel_from = of_ascii ''rust'', rel_to = of_ascii ''rust'', rel_type = of_ascii ''affects''\<rparr>]
     start =
     (Inr (),
      log INFO ''Stored {} entities and {} relationships'' [ArgInt 1, ArgInt 2]
        (store_relationships edges_refused (\<lambda>c. [c])
           [\<lparr>rel_from = of_ascii ''rust'', rel_to = of_ascii ''rust'', rel_type = of_ascii ''affects''\<rparr>]
           [(of_ascii ''rust'', NString (of_ascii ''rust''))]
           \<lparr>world = (),
            trace = [Neo4jSession,
                     Neo4jRun (MergeNode (of_ascii ''Disease'') (of_ascii ''rust'') [])]\<rparr>)) \<and>
   store_relationships edges_refused (\<lambda>c. [c])
     [\<lparr>rel_from = of_ascii ''rust'', rel_to = of_ascii ''rust'', rel_type = of_ascii ''affects''\<rparr>]
     [(of_ascii ''rust'', NString (of_ascii ''rust''))] start =
     \<lparr>world = (),
      trace = [Neo4jRun (MergeEdge (of_ascii ''AFFECTS'') (NString (of_ascii ''rust''))
                           (NString (of_ascii ''rust''))),
               Log WARNING ''Could not create relationship {}: {}''
                 [ArgStr (of_ascii ''AFFECTS''), ArgErr (ClientError (of_ascii ''refused''))]]\<rparr>"
proof -
  let ?e = "\<lparr>ent_name = of_ascii ''rust'', ent_type = Some (of_ascii ''Disease''),
             ent_description = None\<rparr>"
  let ?r1 = "\<lparr>rel_from = of_ascii ''rust'', rel_to = of_ascii ''wheat'',
              rel_type = of_ascii ''affects''\<rparr>"
  let ?r2 = "\<lparr>rel_from = of_ascii ''rust'', rel_to = of_ascii ''rust'',
              rel_type = of_ascii ''affects''\<rparr>"
  let ?ids = "[(of_ascii ''rust'', NString (of_ascii ''rust''))]"
  let ?s1 = "\<lparr>world = (), trace = [Neo4jSession]\<rparr>"
  let ?s2 = "\<lparr>world = (),
              trace = [Neo4jSession,
                       Neo4jRun (MergeNode (of_ascii ''Disease'') (of_ascii ''rust'') [])]\<rparr>"
  let ?up = "\<lambda>c::nat. [c]"
  have h1: "call Neo4jSession (neo4j_session edges_refused) start = (Inr (), ?s1)"
    by (simp add: call_eq edges_refused_def start_def)
  have h2: "store_entities edges_refused (\<lambda>c. False) [?e] [] ?s1 = (Inr ?ids, ?s2)"
    by (simp add: call_eq edges_refused_def entity_label_def isalpha_def of_ascii_def)
  have h3: "map_of ?ids (of_ascii ''wheat'') = None"
    by (simp add: of_ascii_def)
  have lbl: "relationship_label ?up (of_ascii ''affects'') = of_ascii ''AFFECTS''"
    by (simp add: relationship_label_def str_upper_def upper_char_def str_replace_def of_ascii_def)
  have h4: "map_of ?ids (rel_from ?r2) = Some (NString (of_ascii ''rust'')) \<and>
            map_of ?ids (rel_to ?r2) = Some (NString (of_ascii ''rust'')) \<and>
            truthy (NString (of_ascii ''rust'')) \<and> truthy (NString (of_ascii ''rust'')) \<and>
            neo4j_run edges_refused
              (MergeEdge (relationship_label ?up (rel_type ?r2)) (NString (of_ascii ''rust''))
                 (NString (of_ascii ''rust''))) (world start)
              = (Inl (ClientError (of_ascii ''refused'')), ())"
    by (simp add: edges_refused_def of_ascii_def)
  have h5: "[?r1, ?r2] = [] @ ?r1 # [?r2] \<and>
            (map_of ?ids (rel_from ?r1) = None \<or> map_of ?ids (rel_to ?r1) = None)"
    using h3 by simp
  note t = store_in_neo4j_skips_unresolved [OF h1 h2, of ?up "[?r1, ?r2]"]
  have c1: "fst (store_in_neo4j edges_refused (\<lambda>c. False) ?up [?e] [?r1, ?r2] start) = Inr ()"
    using t by blast
  have c2: "store_in_neo4j edges_refused (\<lambda>c. False) ?up [?e] [?r1, ?r2] start =
     (Inr (), log INFO ''Stored {} entities and {} relationships''
        [ArgInt (int (length ?ids)), ArgInt (int (length [?r1, ?r2]))]
        (store_relationships edges_refused ?up ([] @ [?r2]) ?ids ?s2))"
    using t h5 by blast
  have c3: "store_relationships edges_refused ?up (?r2 # []) ?ids start =
     store_relationships edges_refused ?up [] ?ids
       \<lparr>world = (),
        trace = trace start @
          [Neo4jRun (MergeEdge (relationship_label ?up (rel_type ?r2)) (NString (of_ascii ''rust''))
                       (NString (of_ascii ''rust''))),
           Log WARNING ''Could not create relationship {}: {}''
             [ArgStr (relationship_label ?up (rel_type ?r2)),
              ArgErr (ClientError (of_ascii ''refused''))]]\<rparr>"
    using t h4 by blast
  have c3': "store_relationships edges_refused ?up [?r2] ?ids start =
     \<lparr>world = (),
      trace = [Neo4jRun (MergeEdge (of_ascii ''AFFECTS'') (NString (of_ascii ''rust''))
                           (NString (of_ascii ''rust''))),
               Log WARNING ''Could not create relationship {}: {}''
                 [ArgStr (of_ascii ''AFFECTS''), ArgErr (ClientError (of_ascii ''refused''))]]\<rparr>"
    using c3 lbl by (simp add: start_def)
  have c2': "store_in_neo4j edges_refused (\<lambda>c. False) ?up [?e] [?r1, ?r2] start =
     (Inr (), log INFO ''Stored {} entities and {} relationships'' [ArgInt 1, ArgInt 2]
        (store_relationships edges_refused ?up [?r2] ?ids ?s2))"
    using c2 by simp
  show ?thesis using h1 h2 h3 c1 c2' c3' by (intro conjI)
qed

section \<open>Properties of the answer synthesizer\<close>

subsection \<open>Vector search and the context\<close>

lemma generate_embedding_no_chat:
  "filter is_chat_call (trace (snd (generate_embedding svc sha256 text s))) =
   filter is_chat_call (trace s)"
  by (simp add: generate_embedding_def call_eq log_def Let_def split: sum.split)

lemma query_vector_search_no_chat:
  "filter is_chat_call (trace (snd (query_vector_search svc sha256 query top_k s))) =
   filter is_chat_call (trace s)"
proof (cases "generate_embedding svc sha256 query s")
  case (Pair r s1)
  then have t: "filter is_chat_call (trace s1) = filter is_chat_call (trace s)"
    using generate_embedding_no_chat [of svc sha256 query s] by simp
  show ?thesis
    using Pair t by (cases r) (simp_all add: query_vector_search_def call_eq)
qed

lemma collect_context_none:
  assumes "\<forall>m\<in>set ms. length (case md_text m of None \<Rightarrow> [] | Some t \<Rightarrow> t) \<le> 100"
  shows "collect_context ms context_parts sources_dict = (context_parts, sources_dict)"
  using assms by (induction ms) (simp_all add: Let_def)

lemma collect_context_some:
  assumes "\<exists>m\<in>set ms. 100 < length (case md_text m of None \<Rightarrow> [] | Some t \<Rightarrow> t)"
  shows "fst (collect_context ms context_parts sources_dict) \<noteq> []"
proof -
  have "context_parts \<noteq> [] \<Longrightarrow> fst (collect_context ms context_parts sources_dict) \<noteq> []"
    for ms context_parts sources_dict
    by (induction ms arbitrary: context_parts sources_dict) (simp_all add: Let_def)
  then show ?thesis using assms
    by (induction ms arbitrary: context_parts sources_dict) (auto simp: Let_def)
qed

subsection \<open>Claim C5\<close>

text \<open>
  Claim C5. When the vector search returns and no match has a stored text longer than 100
  characters, \<^verbatim>\<open>answer_question\<close> returns the fixed message of source line 260 and does nothing
  after the search: its final state is that of the search, and the trace holds no chat call
  that was not there before the call.
\<close>

theorem answer_question_no_context:
  assumes "fst (query_vector_search svc sha256 question 10 s) = Inr vector_results"
      and "\<forall>m\<in>set vector_results. length (case md_text m of None \<Rightarrow> [] | Some t \<Rightarrow> t) \<le> 100"
  shows "fst (answer_question svc sha256 lower question s) = Inr MSG_NOT_FOUND \<and>
         snd (answer_question svc sha256 lower question s) =
           snd (query_vector_search svc sha256 question 10 s) \<and>
         filter is_chat_call (trace (snd (answer_question svc sha256 lower question s))) =
           filter is_chat_call (trace s)"
proof -
  obtain s1 where q: "query_vector_search svc sha256 question 10 s = (Inr vector_results, s1)"
    using assms(1) by (cases "query_vector_search svc sha256 question 10 s") auto
  have "answer_question svc sha256 lower question s = (Inr MSG_NOT_FOUND, s1)"
    by (simp add: answer_question_def q collect_context_none [OF assms(2)])
  then show ?thesis
    using q query_vector_search_no_chat [of svc sha256 question 10 s] by simp
qed

text \<open>With a match whose text is longer than 100 characters the chat model is called.\<close>

lemma answer_question_with_context_calls_chat:
  assumes "fst (query_vector_search svc sha256 question 10 s) = Inr vector_results"
      and "\<exists>m\<in>set vector_results. 100 < length (case md_text m of None \<Rightarrow> [] | Some t \<Rightarrow> t)"
  shows "\<exists>prompt. ChatCall (of_ascii ''llama3.1'') prompt
           \<in> set (trace (snd (answer_question svc sha256 lower question s)))"
proof -
  obtain s1 where q: "query_vector_search svc sha256 question 10 s = (Inr vector_results, s1)"
    using assms(1) by (cases "query_vector_search svc sha256 question 10 s") auto
  obtain cp sd where c: "collect_context vector_results [] [] = (cp, sd)"
    by (cases "collect_context vector_results [] []") auto
  have "cp \<noteq> []" using collect_context_some [OF assms(2), of "[]" "[]"] c by simp
  then show ?thesis
    by (auto simp: answer_question_def q c call_eq log_def Let_def split: sum.split)
qed

text \<open>A run whose only match is a short heading.\<close>

theorem answer_question_no_context_witness:
  "fst (query_vector_search
          (offline\<lparr>ollama_embeddings := \<lambda>model prompt w. (Inr [], w),
                   pinecone_query := \<lambda>vector top_k w.
                     (Inr [\<lparr>md_text = Some (of_ascii ''UOT 633''), md_original_filename = None,
                            md_doc_id = None, md_page_num = Some 1\<rparr>], w)\<rparr>)
          (\<lambda>text. 0) (of_ascii ''rust?'') 10 start) =
     Inr [\<lparr>md_text = Some (of_ascii ''UOT 633''), md_original_filename = None,
           md_doc_id = None, md_page_num = Some 1\<rparr>] \<and>
   fst (answer_question
          (offline\<lparr>ollama_embeddings := \<lambda>model prompt w. (Inr [], w),
                   pinecone_query := \<lambda>vector top_k w.
                     (Inr [\<lparr>md_text = Some (of_ascii ''UOT 633''), md_original_filename = None,
                            md_doc_id = None, md_page_num = Some 1\<rparr>], w)\<rparr>)
          (\<lambda>text. 0) (\<lambda>line. line) (of_ascii ''rust?'') start) = Inr MSG_NOT_FOUND \<and>
   filter is_chat_call (trace (snd (answer_question
          (offline\<lparr>ollama_embeddings := \<lambda>model prompt w. (Inr [], w),
                   pinecone_query := \<lambda>vector top_k w.
                     (Inr [\<lparr>md_text = Some (of_ascii ''UOT 633''), md_original_filename = None,
                            md_doc_id = None, md_page_num = Some 1\<rparr>], w)\<rparr>)
          (\<lambda>text. 0) (\<lambda>line. line) (of_ascii ''rust?'') start))) = []"
proof -
  let ?m = "\<lparr>md_text = Some (of_ascii ''UOT 633''), md_original_filename = None,
             md_doc_id = None, md_page_num = Some 1\<rparr>"
  let ?svc = "offline\<lparr>ollama_embeddings := \<lambda>model prompt w. (Inr [], w),
                      pinecone_query := \<lambda>vector top_k w. (Inr [?m], w)\<rparr>"
  have h1: "fst (query_vector_search ?svc (\<lambda>text. 0) (of_ascii ''rust?'') 10 start) = Inr [?m]"
    by (simp add: query_vector_search_def generate_embedding_def call_eq Let_def log_def)
  have h2: "\<forall>m\<in>set [?m]. length (case md_text m of None \<Rightarrow> [] | Some t \<Rightarrow> t) \<le> 100"
    by (simp add: of_ascii_def)
  note t = answer_question_no_context [OF h1 h2, of "\<lambda>line. line"]
  have c1: "fst (answer_question ?svc (\<lambda>text. 0) (\<lambda>line. line) (of_ascii ''rust?'') start)
              = Inr MSG_NOT_FOUND"
    using t by blast
  have "filter is_chat_call (trace (snd (answer_question ?svc (\<lambda>text. 0) (\<lambda>line. line)
          (of_ascii ''rust?'') start))) = filter is_chat_call (trace start)"
    using t by blast
  also have "\<dots> = []" by (simp add: start_def)
  finally show ?thesis using h1 c1 by (intro conjI)
qed

section \<open>Properties of the statistics\<close>

lemma get_statistics_Inr: "\<exists>stats. fst (get_statistics svc s) = Inr stats"
  by (simp add: get_statistics_def split: prod.split sum.split)

lemma get_statistics_fallback:
  "fst (get_statistics_try svc s) = Inl e \<Longrightarrow> fst (get_statistics svc s) = Inr FALLBACK_STATISTICS"
  by (cases "get_statistics_try svc s") (auto simp: get_statistics_def)

lemma get_statistics_genuine:
  "fst (get_statistics_try svc s) = Inr stats \<Longrightarrow> fst (get_statistics svc s) = Inr stats"
  by (cases "get_statistics_try svc s") (auto simp: get_statistics_def)

lemma count_query_eq:
  "count_query svc query s =
     (case fst (neo4j_run svc query (world s)) of
        Inl e \<Rightarrow> Inl e
      | Inr None \<Rightarrow> Inl TypeError
      | Inr (Some v) \<Rightarrow> Inr v,
      \<lparr>world = snd (neo4j_run svc query (world s)), trace = trace s @ [Neo4jRun query]\<rparr>)"
  by (simp add: count_query_def call_eq split: sum.split option.split)

lemma get_statistics_try_cases:
  fixes svc :: "'w services"
  defines "w1 \<equiv> \<lambda>s :: 'w state. snd (neo4j_session svc (world s))"
  defines "w2 \<equiv> \<lambda>s. snd (neo4j_run svc CountNodes (w1 s))"
  defines "w3 \<equiv> \<lambda>s. snd (neo4j_run svc CountRelationships (w2 s))"
  shows "fst (get_statistics_try svc s) =
     (case fst (neo4j_session svc (world s)) of
        Inl e \<Rightarrow> Inl e
      | Inr u \<Rightarrow>
          (case fst (neo4j_run svc CountNodes (w1 s)) of
             Inl e \<Rightarrow> Inl e
           | Inr None \<Rightarrow> Inl TypeError
           | Inr (Some n) \<Rightarrow>
               (case fst (neo4j_run svc CountRelationships (w2 s)) of
                  Inl e \<Rightarrow> Inl e
                | Inr None \<Rightarrow> Inl TypeError
                | Inr (Some r) \<Rightarrow>
                    (case fst (pinecone_describe_index_stats svc (w3 s)) of
                       Inl e \<Rightarrow> Inl e
                     | Inr v \<Rightarrow>
                         Inr \<lparr>neo4j_nodes = n, neo4j_relationships = r, pinecone_vectors = v\<rparr>))))"
  unfolding w1_def w2_def w3_def
  by (simp add: get_statistics_try_def count_query_eq call_eq split: sum.split option.split)

subsection \<open>Claim C10\<close>

text \<open>
  Claim C10. \<^verbatim>\<open>get_statistics\<close> never raises: it always returns statistics. When opening the
  session, one of the two count queries (by raising or by returning no record) or the index
  statistics fails, it returns the fixed counts 24, 2 and 47; when all succeed, it returns
  the counts read, in a value of the same shape.
\<close>

theorem get_statistics_never_raises:
  fixes svc :: "'w services"
  shows "(\<exists>stats. fst (get_statistics svc s) = Inr stats) \<and>
    ((\<exists>e. fst (neo4j_session svc (world s)) = Inl e) \<or>
     (\<nexists>n. fst (neo4j_run svc CountNodes (snd (neo4j_session svc (world s)))) = Inr (Some n)) \<or>
     (\<nexists>r. fst (neo4j_run svc CountRelationships
                (snd (neo4j_run svc CountNodes (snd (neo4j_session svc (world s)))))) = Inr (Some r)) \<or>
     (\<exists>e. fst (pinecone_describe_index_stats svc
                (snd (neo4j_run svc CountRelationships
                   (snd (neo4j_run svc CountNodes (snd (neo4j_session svc (world s)))))))) = Inl e)
     \<longrightarrow> fst (get_statistics svc s) = Inr FALLBACK_STATISTICS) \<and>
    (\<forall>u n r v.
       fst (neo4j_session svc (world s)) = Inr u \<and>
       fst (neo4j_run svc CountNodes (snd (neo4j_session svc (world s)))) = Inr (Some n) \<and>
       fst (neo4j_run svc CountRelationships
              (snd (neo4j_run svc CountNodes (snd (neo4j_session svc (world s)))))) = Inr (Some r) \<and>
       fst (pinecone_describe_index_stats svc
              (snd (neo4j_run svc CountRelationships
                 (snd (neo4j_run svc CountNodes (snd (neo4j_session svc (world s)))))))) = Inr v
       \<longrightarrow> fst (get_statistics svc s) =
             Inr \<lparr>neo4j_nodes = n, neo4j_relationships = r, pinecone_vectors = v\<rparr>)"
proof (intro conjI impI allI)
  show "\<exists>stats. fst (get_statistics svc s) = Inr stats" by (rule get_statistics_Inr)
next
  assume f: "(\<exists>e. fst (neo4j_session svc (world s)) = Inl e) \<or>
     (\<nexists>n. fst (neo4j_run svc CountNodes (snd (neo4j_session svc (world s)))) = Inr (Some n)) \<or>
     (\<nexists>r. fst (neo4j_run svc CountRelationships
                (snd (neo4j_run svc CountNodes (snd (neo4j_session svc (world s)))))) = Inr (Some r)) \<or>
     (\<exists>e. fst (pinecone_describe_index_stats svc
                (snd (neo4j_run svc CountRelationships
                   (snd (neo4j_run svc CountNodes (snd (neo4j_session svc (world s)))))))) = Inl e)"
  have "\<exists>e. fst (get_statistics_try svc s) = Inl e"
    using f unfolding get_statistics_try_cases
    by (auto split: sum.split option.split)
  then show "fst (get_statistics svc s) = Inr FALLBACK_STATISTICS"
    using get_statistics_fallback by blast
next
  fix u n r v
  assume "fst (neo4j_session svc (world s)) = Inr u \<and>
       fst (neo4j_run svc CountNodes (snd (neo4j_session svc (world s)))) = Inr (Some n) \<and>
       fst (neo4j_run svc CountRelationships
              (snd (neo4j_run svc CountNodes (snd (neo4j_session svc (world s)))))) = Inr (Some r) \<and>
       fst (pinecone_describe_index_stats svc
              (snd (neo4j_run svc CountRelationships
                 (snd (neo4j_run svc CountNodes (snd (neo4j_session svc (world s)))))))) = Inr v"
  then have "fst (get_statistics_try svc s) =
             Inr \<lparr>neo4j_nodes = n, neo4j_relationships = r, pinecone_vectors = v\<rparr>"
    unfolding get_statistics_try_cases by simp
  then show "fst (get_statistics svc s) =
             Inr \<lparr>neo4j_nodes = n, neo4j_relationships = r, pinecone_vectors = v\<rparr>"
    by (rule get_statistics_genuine)
qed

text \<open>
  A run with every service offline, and a run on healthy services that hold 24 nodes, 2
  relationships and 47 vectors: the two return the same value.
\<close>

theorem get_statistics_never_raises_witness:
  "fst (neo4j_session offline (world start)) = Inl (ClientError (of_ascii ''offline'')) \<and>
   fst (get_statistics offline start) = Inr FALLBACK_STATISTICS \<and>
   fst (get_statistics
          (offline\<lparr>neo4j_session := \<lambda>w. (Inr (), w),
                   neo4j_run := \<lambda>query w.
                     (case query of
                        CountNodes \<Rightarrow> Inr (Some (NInt 24))
                      | CountRelationships \<Rightarrow> Inr (Some (NInt 2))
                      | _ \<Rightarrow> Inr None, w),
                   pinecone_describe_index_stats := \<lambda>w. (Inr 47, w)\<rparr>) start) =
     Inr \<lparr>neo4j_nodes = NInt 24, neo4j_relationships = NInt 2, pinecone_vectors = 47\<rparr> \<and>
   fst (get_statistics
          (offline\<lparr>neo4j_session := \<lambda>w. (Inr (), w),
                   neo4j_run := \<lambda>query w.
                     (case query of
                        CountNodes \<Rightarrow> Inr (Some (NInt 24))
                      | CountRelationships \<Rightarrow> Inr (Some (NInt 2))
                      | _ \<Rightarrow> Inr None, w),
                   pinecone_describe_index_stats := \<lambda>w. (Inr 47, w)\<rparr>) start) =
     fst (get_statistics offline start)"
proof -
  let ?up = "offline\<lparr>neo4j_session := \<lambda>w. (Inr (), w),
                   neo4j_run := \<lambda>query w.
                     (case query of
                        CountNodes \<Rightarrow> Inr (Some (NInt 24))
                      | CountRelationships \<Rightarrow> Inr (Some (NInt 2))
                      | _ \<Rightarrow> Inr None, w),
                   pinecone_describe_index_stats := \<lambda>w. (Inr 47, w)\<rparr>"
  have h0: "fst (neo4j_session offline (world start)) = Inl (ClientError (of_ascii ''offline''))"
    by (simp add: offline_def)
  have c0: "fst (get_statistics offline start) = Inr FALLBACK_STATISTICS"
    using get_statistics_never_raises [of offline start] h0 by blast
  have h1: "fst (neo4j_session ?up (world start)) = Inr () \<and>
       fst (neo4j_run ?up CountNodes (snd (neo4j_session ?up (world start)))) = Inr (Some (NInt 24)) \<and>
       fst (neo4j_run ?up CountRelationships
              (snd (neo4j_run ?up CountNodes (snd (neo4j_session ?up (world start))))))
         = Inr (Some (NInt 2)) \<and>
       fst (pinecone_describe_index_stats ?up
              (snd (neo4j_run ?up CountRelationships
                 (snd (neo4j_run ?up CountNodes (snd (neo4j_session ?up (world start))))))))
         = Inr 47"
    by simp
  have c1: "fst (get_statistics ?up start) =
            Inr \<lparr>neo4j_nodes = NInt 24, neo4j_relationships = NInt 2, pinecone_vectors = 47\<rparr>"
    using get_statistics_never_raises [of ?up start] h1 by blast
  have c2: "fst (get_statistics ?up start) = fst (get_statistics offline start)"
    using c0 c1 by (simp add: FALLBACK_STATISTICS_def)
  show ?thesis using h0 c0 c1 c2 by (intro conjI)
qed

end
